theory Spec2Isabelle
  imports Complex_Main "HOL-Library.List_Lexorder" "HOL-Library.Char_ord"
begin

section \<open>Data model\<close>

text \<open>
  Modelling conventions.
  \<^item> A \<^verbatim>\<open>datetime\<close> is its count of microseconds (an integer); a \<^verbatim>\<open>timedelta\<close> is a
    signed number of microseconds. In the first sections the representable range of the
    library type (years 1 to 9999) is not modelled: times are unbounded.
  \<^item> In the first sections Python floats are idealised as real numbers.
    \<^verbatim>\<open>timedelta(seconds=s)\<close> keeps whole microseconds only: it rounds \<open>s * 10^6\<close> to the
    nearest integer, ties to even.
  \<^item> The spatial and the temporal check are embedded a second time over the
    interpreter's own numbers and the bounded \<^verbatim>\<open>datetime\<close>; the statements about what
    these two checks emit or return are made there.
  \<^item> An exception is a value \<open>Inl e\<close> of a sum type; a loop that may run forever is a
    \<^theory_text>\<open>partial_function\<close> whose value \<open>None\<close> means that the call does not return.
  \<^item> Drone ids are strings, ordered lexicographically by character code as Python orders
    \<^verbatim>\<open>str\<close>.
\<close>

datatype error = ValueError | TypeError | IndexError | KeyError | OverflowError | ZeroDivisionError

type_synonym datetime = int
type_synonym timedelta = int

definition total_seconds :: "timedelta \<Rightarrow> real" where
  "total_seconds d = real_of_int d / 1000000"

definition round_half_even :: "real \<Rightarrow> int" where
  "round_half_even v =
     (let f = \<lfloor>v\<rfloor>; r = v - of_int f
      in if r < 1 / 2 then f else if 1 / 2 < r then f + 1
         else if even f then f else f + 1)"

definition timedelta_seconds :: "real \<Rightarrow> timedelta" where
  "timedelta_seconds s = round_half_even (s * 1000000)"

text \<open>\<^verbatim>\<open>timedelta(seconds=n)\<close> for a whole number \<open>n\<close>.\<close>

definition seconds :: "int \<Rightarrow> timedelta" where
  "seconds n = n * 1000000"

text \<open>Class \<^verbatim>\<open>Waypoint\<close>: fields \<^verbatim>\<open>x, y, z, time\<close> (\<^verbatim>\<open>time\<close> may be \<^verbatim>\<open>None\<close>).\<close>

record waypoint =
  wp_x :: real
  wp_y :: real
  wp_z :: real
  wp_time :: "datetime option"

definition distance_to :: "waypoint \<Rightarrow> waypoint \<Rightarrow> real" where
  "distance_to self other_waypoint =
     (let dx = wp_x self - wp_x other_waypoint;
          dy = wp_y self - wp_y other_waypoint;
          dz = wp_z self - wp_z other_waypoint
      in sqrt (dx ^ 2 + dy ^ 2 + dz ^ 2))"

definition calculate_distance :: "waypoint \<Rightarrow> waypoint \<Rightarrow> real" where
  "calculate_distance wp1 wp2 =
     (let dx = wp_x wp1 - wp_x wp2;
          dy = wp_y wp1 - wp_y wp2;
          dz = wp_z wp1 - wp_z wp2
      in sqrt (dx ^ 2 + dy ^ 2 + dz ^ 2))"

text \<open>
  Class \<^verbatim>\<open>Mission\<close>. The record is the mission as the reading functions see it: the
  waypoint objects of its list, dereferenced.
\<close>

record mission =
  drone_id :: string
  waypoints :: "waypoint list"
  start_time :: datetime
  end_time :: datetime

text \<open>Class \<^verbatim>\<open>Conflict\<close>; the constructor stores \<^verbatim>\<open>sorted(list(set(ids)))\<close>.\<close>

record conflict =
  location :: waypoint
  conflict_time :: datetime
  conflicting_drone_ids :: "string list"
  description :: string

definition Conflict_init ::
  "waypoint \<Rightarrow> datetime \<Rightarrow> string list \<Rightarrow> string \<Rightarrow> error + conflict" where
  "Conflict_init loc t ids desc =
     (if desc = [] then Inl ValueError
      else Inr \<lparr>location = loc, conflict_time = t,
                conflicting_drone_ids = sorted_list_of_set (set ids),
                description = desc\<rparr>)"

section \<open>Trajectory generation: position at a time\<close>

text \<open>
  The \<^verbatim>\<open>for\<close> loop of \<^verbatim>\<open>get_position_at_time\<close>: the first index \<open>i\<close> with
  \<^verbatim>\<open>waypoints[i].time <= query_time <= waypoints[i+1].time\<close>. The chained comparison
  evaluates its second half only when the first holds; comparing \<^verbatim>\<open>None\<close> raises.
\<close>

fun find_segment :: "waypoint list \<Rightarrow> datetime \<Rightarrow> error + (waypoint \<times> waypoint) option" where
  "find_segment (a # b # rest) query_time =
     (case wp_time a of
        None \<Rightarrow> Inl TypeError
      | Some ta \<Rightarrow>
          if ta \<le> query_time then
            (case wp_time b of
               None \<Rightarrow> Inl TypeError
             | Some tb \<Rightarrow>
                 if query_time \<le> tb then Inr (Some (a, b))
                 else find_segment (b # rest) query_time)
          else find_segment (b # rest) query_time)"
| "find_segment [a] query_time = Inr None"
| "find_segment [] query_time = Inr None"

definition interpolate_between :: "waypoint \<Rightarrow> waypoint \<Rightarrow> datetime \<Rightarrow> datetime \<Rightarrow> real \<Rightarrow> waypoint" where
  "interpolate_between wp1 wp2 t1 t segment_duration =
     (let time_into_segment = total_seconds (t - t1);
          alpha = time_into_segment / segment_duration
      in \<lparr>wp_x = wp_x wp1 + alpha * (wp_x wp2 - wp_x wp1),
          wp_y = wp_y wp1 + alpha * (wp_y wp2 - wp_y wp1),
          wp_z = wp_z wp1 + alpha * (wp_z wp2 - wp_z wp1),
          wp_time = Some t\<rparr>)"

definition get_position_at_time :: "mission \<Rightarrow> datetime \<Rightarrow> error + waypoint option" where
  "get_position_at_time m query_time =
     (if \<not> (start_time m \<le> query_time \<and> query_time \<le> end_time m) then Inr None
      else if waypoints m = [] then Inl IndexError
      else
        case find_segment (waypoints m) query_time of
          Inl e \<Rightarrow> Inl e
        | Inr seg \<Rightarrow>
            if Some query_time = wp_time (last (waypoints m)) then Inr (Some (last (waypoints m)))
            else if Some query_time = wp_time (hd (waypoints m)) then Inr (Some (hd (waypoints m)))
            else
              (case seg of
                 None \<Rightarrow> Inr (Some (last (waypoints m)))
               | Some (wp1, wp2) \<Rightarrow>
                   (case (wp_time wp2, wp_time wp1) of
                      (Some t2, Some t1) \<Rightarrow>
                        let segment_duration = total_seconds (t2 - t1)
                        in if segment_duration \<le> 0 then Inr (Some wp1)
                           else Inr (Some (interpolate_between wp1 wp2 t1 query_time segment_duration))
                    | _ \<Rightarrow> Inl TypeError)))"


section \<open>Trajectory generation: dense sampling\<close>

text \<open>
  The inner \<^verbatim>\<open>while\<close> of \<^verbatim>\<open>interpolate_trajectory\<close>: the segment cursor moves forward
  while the next waypoint's time is not after the sample time.
\<close>

function advance_index :: "waypoint list \<Rightarrow> nat \<Rightarrow> datetime \<Rightarrow> error + nat" where
  "advance_index wps i t =
     (if i + 1 < length wps then
        (case wp_time (wps ! (i + 1)) of
           None \<Rightarrow> Inl TypeError
         | Some t1 \<Rightarrow> if t1 \<le> t then advance_index wps (i + 1) t else Inr i)
      else Inr i)"
  by pat_completeness auto
termination
  by (relation "measure (\<lambda>(wps, i, t). length wps - i)") auto

declare advance_index.simps [simp del]

text \<open>
  The sample appended for cursor \<open>i\<close> and time \<open>t\<close>; the source has this block twice, in
  the main loop and for the final sample at \<^verbatim>\<open>end_time\<close>. It is called with
  \<open>i < length wps\<close> only.
\<close>

definition sample_at :: "waypoint list \<Rightarrow> nat \<Rightarrow> datetime \<Rightarrow> error + waypoint" where
  "sample_at wps i t =
     (let wp1 = wps ! i
      in if i = length wps - 1 then
           Inr \<lparr>wp_x = wp_x wp1, wp_y = wp_y wp1, wp_z = wp_z wp1, wp_time = Some t\<rparr>
         else
           let wp2 = wps ! (i + 1)
           in (case (wp_time wp2, wp_time wp1) of
                 (Some t2, Some t1) \<Rightarrow>
                   let segment_duration = total_seconds (t2 - t1)
                   in if segment_duration \<le> 0 then
                        Inr \<lparr>wp_x = wp_x wp2, wp_y = wp_y wp2, wp_z = wp_z wp2, wp_time = Some t\<rparr>
                      else Inr (interpolate_between wp1 wp2 t1 t segment_duration)
               | _ \<Rightarrow> Inl TypeError))"

text \<open>
  The main \<^verbatim>\<open>while current_time <= mission.end_time\<close> loop. Nothing in the loop bounds
  the number of rounds when the step is zero, so the loop is a partial function.
\<close>

partial_function (option) interpolate_loop ::
  "mission \<Rightarrow> timedelta \<Rightarrow> datetime \<Rightarrow> nat \<Rightarrow> waypoint list \<Rightarrow> (error + waypoint list) option" where
  "interpolate_loop m step current_time current_waypoint_index interpolated_path =
     (if current_time \<le> end_time m then
        (case advance_index (waypoints m) current_waypoint_index current_time of
           Inl e \<Rightarrow> Some (Inl e)
         | Inr i \<Rightarrow>
             (case sample_at (waypoints m) i current_time of
                Inl e \<Rightarrow> Some (Inl e)
              | Inr wp \<Rightarrow>
                  interpolate_loop m step (current_time + step) i (interpolated_path @ [wp])))
      else Some (Inr interpolated_path))"

text \<open>The loop of the branch for a mission with a single waypoint.\<close>

partial_function (option) static_loop ::
  "mission \<Rightarrow> timedelta \<Rightarrow> datetime \<Rightarrow> waypoint list \<Rightarrow> waypoint list option" where
  "static_loop m step current_time interpolated_path =
     (if current_time \<le> end_time m then
        static_loop m step (current_time + step)
          (interpolated_path @
             [\<lparr>wp_x = wp_x (waypoints m ! 0), wp_y = wp_y (waypoints m ! 0),
               wp_z = wp_z (waypoints m ! 0), wp_time = Some current_time\<rparr>])
      else Some interpolated_path)"

text \<open>\<^verbatim>\<open>not interpolated_path or interpolated_path[-1].time < mission.end_time\<close>\<close>

definition needs_final :: "waypoint list \<Rightarrow> datetime \<Rightarrow> error + bool" where
  "needs_final interpolated_path e =
     (if interpolated_path = [] then Inr True
      else case wp_time (last interpolated_path) of
             None \<Rightarrow> Inl TypeError
           | Some t \<Rightarrow> Inr (t < e))"

definition interpolate_trajectory :: "mission \<Rightarrow> real \<Rightarrow> (error + waypoint list) option" where
  "interpolate_trajectory m time_step_seconds =
     (if time_step_seconds \<le> 0 then Some (Inl ValueError)
      else if length (waypoints m) < 2 then
        (if waypoints m \<noteq> [] then
           (case static_loop m (timedelta_seconds time_step_seconds) (start_time m) [] of
              None \<Rightarrow> None
            | Some path \<Rightarrow>
                Some (case needs_final path (end_time m) of
                        Inl e \<Rightarrow> Inl e
                      | Inr False \<Rightarrow> Inr path
                      | Inr True \<Rightarrow>
                          Inr (path @
                            [\<lparr>wp_x = wp_x (waypoints m ! 0), wp_y = wp_y (waypoints m ! 0),
                              wp_z = wp_z (waypoints m ! 0), wp_time = Some (end_time m)\<rparr>])))
         else Some (Inr []))
      else
        (case interpolate_loop m (timedelta_seconds time_step_seconds) (start_time m) 0 [] of
           None \<Rightarrow> None
         | Some (Inl e) \<Rightarrow> Some (Inl e)
         | Some (Inr path) \<Rightarrow>
             Some (case needs_final path (end_time m) of
                     Inl e \<Rightarrow> Inl e
                   | Inr False \<Rightarrow> Inr path
                   | Inr True \<Rightarrow>
                       (case advance_index (waypoints m) 0 (end_time m) of
                          Inl e \<Rightarrow> Inl e
                        | Inr i \<Rightarrow>
                            (case sample_at (waypoints m) i (end_time m) of
                               Inl e \<Rightarrow> Inl e
                             | Inr wp \<Rightarrow> Inr (path @ [wp]))))))"

section \<open>Spatial check\<close>

text \<open>The two nested \<^verbatim>\<open>for\<close> loops of \<^verbatim>\<open>check_spatial_proximity\<close>, with the result list as accumulator.\<close>

fun scan_simulated ::
  "waypoint \<Rightarrow> waypoint list \<Rightarrow> real \<Rightarrow> (waypoint \<times> waypoint) list \<Rightarrow> error + (waypoint \<times> waypoint) list" where
  "scan_simulated p_wp [] safety_buffer acc = Inr acc"
| "scan_simulated p_wp (s_wp # rest) safety_buffer acc =
     (case (wp_time p_wp, wp_time s_wp) of
        (Some tp, Some ts) \<Rightarrow>
          let time_diff = \<bar>total_seconds (tp - ts)\<bar>
          in if time_diff < safety_buffer * 2 then
               (let distance = calculate_distance p_wp s_wp
                in if distance < safety_buffer
                   then scan_simulated p_wp rest safety_buffer (acc @ [(p_wp, s_wp)])
                   else scan_simulated p_wp rest safety_buffer acc)
             else scan_simulated p_wp rest safety_buffer acc
      | _ \<Rightarrow> Inl TypeError)"

fun scan_primary ::
  "waypoint list \<Rightarrow> waypoint list \<Rightarrow> real \<Rightarrow> (waypoint \<times> waypoint) list \<Rightarrow> error + (waypoint \<times> waypoint) list" where
  "scan_primary [] simulated_trajectory safety_buffer acc = Inr acc"
| "scan_primary (p_wp # rest) simulated_trajectory safety_buffer acc =
     (case scan_simulated p_wp simulated_trajectory safety_buffer acc of
        Inl e \<Rightarrow> Inl e
      | Inr acc' \<Rightarrow> scan_primary rest simulated_trajectory safety_buffer acc')"

definition check_spatial_proximity ::
  "string \<Rightarrow> waypoint list \<Rightarrow> string \<Rightarrow> waypoint list \<Rightarrow> real \<Rightarrow> error + (waypoint \<times> waypoint) list" where
  "check_spatial_proximity primary_mission_id primary_trajectory
       simulated_mission_id simulated_trajectory safety_buffer =
     (if safety_buffer \<le> 0 then Inl ValueError
      else scan_primary primary_trajectory simulated_trajectory safety_buffer [])"

section \<open>Temporal check\<close>

text \<open>
  The description is a formatted sentence naming the two drones, the location and the
  clock time; only its beginning is modelled (number and clock formatting are left out).
  It is never empty.
\<close>

definition conflict_description :: "mission \<Rightarrow> mission \<Rightarrow> string" where
  "conflict_description primary_mission simulated_mission =
     ''Spatio-temporal conflict between '' @ drone_id primary_mission @ '' and '' @
       drone_id simulated_mission"

text \<open>The \<^verbatim>\<open>while\<close> loop of \<^verbatim>\<open>check_temporal_overlap_at_location\<close>; \<open>stop\<close> is the value of
  \<^verbatim>\<open>min(check_time_end, primary_mission.end_time, simulated_mission.end_time)\<close>.\<close>

function temporal_loop ::
  "mission \<Rightarrow> mission \<Rightarrow> real \<Rightarrow> datetime \<Rightarrow> datetime \<Rightarrow> error + conflict option" where
  "temporal_loop primary_mission simulated_mission safety_buffer stop current_check_time =
     (if current_check_time \<le> stop then
        (case get_position_at_time primary_mission current_check_time of
           Inl e \<Rightarrow> Inl e
         | Inr pos_primary \<Rightarrow>
             (case get_position_at_time simulated_mission current_check_time of
                Inl e \<Rightarrow> Inl e
              | Inr pos_simulated \<Rightarrow>
                  (case (pos_primary, pos_simulated) of
                     (Some pp, Some ps) \<Rightarrow>
                       if calculate_distance pp ps < safety_buffer then
                         (case Conflict_init
                                 \<lparr>wp_x = (wp_x pp + wp_x ps) / 2,
                                  wp_y = (wp_y pp + wp_y ps) / 2,
                                  wp_z = (wp_z pp + wp_z ps) / 2,
                                  wp_time = Some current_check_time\<rparr>
                                 current_check_time
                                 [drone_id primary_mission, drone_id simulated_mission]
                                 (conflict_description primary_mission simulated_mission) of
                            Inl e \<Rightarrow> Inl e
                          | Inr c \<Rightarrow> Inr (Some c))
                       else temporal_loop primary_mission simulated_mission safety_buffer stop
                              (current_check_time + seconds 1)
                   | _ \<Rightarrow> temporal_loop primary_mission simulated_mission safety_buffer stop
                            (current_check_time + seconds 1))))
      else Inr None)"
  by pat_completeness auto
termination
  by (relation "measure (\<lambda>(pm, sm, b, stop, cur). nat (stop - cur + 1))")
     (auto simp: seconds_def)

declare temporal_loop.simps [simp del]

definition check_temporal_overlap_at_location ::
  "mission \<Rightarrow> mission \<Rightarrow> waypoint \<Rightarrow> waypoint \<Rightarrow> real \<Rightarrow> timedelta \<Rightarrow> error + conflict option" where
  "check_temporal_overlap_at_location primary_mission simulated_mission
       potential_conflict_point_primary potential_conflict_point_simulated
       safety_buffer time_proximity_threshold =
     (if safety_buffer \<le> 0 then Inl ValueError
      else if total_seconds time_proximity_threshold < 0 then Inl ValueError
      else
        case wp_time potential_conflict_point_primary of
          None \<Rightarrow> Inl TypeError
        | Some tc \<Rightarrow>
            let check_time_start = tc - time_proximity_threshold;
                check_time_end = tc + time_proximity_threshold;
                current_check_time =
                  max (max check_time_start (start_time primary_mission)) (start_time simulated_mission)
            in temporal_loop primary_mission simulated_mission safety_buffer
                 (min (min check_time_end (end_time primary_mission)) (end_time simulated_mission))
                 current_check_time)"

section \<open>Deconfliction system\<close>

record deconfliction_system =
  simulated_missions :: "mission list"
  safety_buffer :: real
  pre_interpolated_simulated_trajectories :: "string \<rightharpoonup> waypoint list"

record verdict =
  status :: string
  conflict_details :: "conflict list"

text \<open>The dictionary comprehension of the constructor; a later mission with the same id
  replaces the earlier entry. The sampling step is the default, one second.\<close>

fun pre_interpolate ::
  "mission list \<Rightarrow> (string \<rightharpoonup> waypoint list) \<Rightarrow> (error + (string \<rightharpoonup> waypoint list)) option" where
  "pre_interpolate [] cache = Some (Inr cache)"
| "pre_interpolate (m # ms) cache =
     (case interpolate_trajectory m 1 of
        None \<Rightarrow> None
      | Some (Inl e) \<Rightarrow> Some (Inl e)
      | Some (Inr traj) \<Rightarrow> pre_interpolate ms (cache(drone_id m \<mapsto> traj)))"

definition DeconflictionSystem_init ::
  "mission list \<Rightarrow> real \<Rightarrow> (error + deconfliction_system) option" where
  "DeconflictionSystem_init missions buffer =
     (if buffer \<le> 0 then Some (Inl ValueError)
      else case pre_interpolate missions Map.empty of
             None \<Rightarrow> None
           | Some (Inl e) \<Rightarrow> Some (Inl e)
           | Some (Inr cache) \<Rightarrow>
               Some (Inr \<lparr>simulated_missions = missions, safety_buffer = buffer,
                          pre_interpolated_simulated_trajectories = cache\<rparr>))"

text \<open>The inner loop of \<^verbatim>\<open>verify_mission\<close>, over the candidate pairs of one simulated mission.\<close>

fun refine_candidates ::
  "mission \<Rightarrow> mission \<Rightarrow> real \<Rightarrow> (waypoint \<times> waypoint) list \<Rightarrow> conflict list \<Rightarrow> error + conflict list" where
  "refine_candidates primary_mission simulated_mission buffer [] detected_conflicts =
     Inr detected_conflicts"
| "refine_candidates primary_mission simulated_mission buffer ((p_wp, s_wp) # rest) detected_conflicts =
     (case check_temporal_overlap_at_location primary_mission simulated_mission p_wp s_wp
             buffer (seconds 5) of
        Inl e \<Rightarrow> Inl e
      | Inr None \<Rightarrow>
          refine_candidates primary_mission simulated_mission buffer rest detected_conflicts
      | Inr (Some c) \<Rightarrow>
          refine_candidates primary_mission simulated_mission buffer rest (detected_conflicts @ [c]))"

text \<open>The outer loop of \<^verbatim>\<open>verify_mission\<close>, over the simulated missions.\<close>

fun verify_loop ::
  "deconfliction_system \<Rightarrow> mission \<Rightarrow> waypoint list \<Rightarrow> mission list \<Rightarrow> conflict list \<Rightarrow> error + conflict list" where
  "verify_loop sys primary_mission primary_trajectory [] detected_conflicts = Inr detected_conflicts"
| "verify_loop sys primary_mission primary_trajectory (simulated_mission # rest) detected_conflicts =
     (case pre_interpolated_simulated_trajectories sys (drone_id simulated_mission) of
        None \<Rightarrow> Inl KeyError
      | Some simulated_trajectory \<Rightarrow>
          (case check_spatial_proximity (drone_id primary_mission) primary_trajectory
                  (drone_id simulated_mission) simulated_trajectory (safety_buffer sys) of
             Inl e \<Rightarrow> Inl e
           | Inr potential_spatial_overlaps \<Rightarrow>
               (case refine_candidates primary_mission simulated_mission (safety_buffer sys)
                       potential_spatial_overlaps detected_conflicts of
                  Inl e \<Rightarrow> Inl e
                | Inr detected_conflicts' \<Rightarrow>
                    verify_loop sys primary_mission primary_trajectory rest detected_conflicts')))"

definition verify_mission :: "deconfliction_system \<Rightarrow> mission \<Rightarrow> (error + verdict) option" where
  "verify_mission sys primary_mission =
     (case interpolate_trajectory primary_mission 1 of
        None \<Rightarrow> None
      | Some (Inl e) \<Rightarrow> Some (Inl e)
      | Some (Inr primary_trajectory) \<Rightarrow>
          Some (case verify_loop sys primary_mission primary_trajectory (simulated_missions sys) [] of
                  Inl e \<Rightarrow> Inl e
                | Inr detected_conflicts \<Rightarrow>
                    if detected_conflicts \<noteq> [] then
                      Inr \<lparr>status = ''conflict detected'', conflict_details = detected_conflicts\<rparr>
                    else Inr \<lparr>status = ''clear'', conflict_details = []\<rparr>))"

section \<open>Mission construction\<close>

text \<open>
  The constructor writes the \<^verbatim>\<open>time\<close> field of the Waypoint objects it is given, and a
  list may hold the same object more than once. The objects therefore live in a store:
  a reference is a number, the store maps each reference to the object's fields.
\<close>

type_synonym ref = nat
type_synonym store = "ref \<Rightarrow> waypoint"

definition set_time :: "store \<Rightarrow> ref \<Rightarrow> datetime \<Rightarrow> store" where
  "set_time h r t = h(r := (h r)\<lparr>wp_time := Some t\<rparr>)"

definition total_path_distance :: "store \<Rightarrow> ref list \<Rightarrow> real" where
  "total_path_distance h refs =
     fold (\<lambda>i total. total + distance_to (h (refs ! i)) (h (refs ! (i + 1))))
       [0..<length refs - 1] 0"

text \<open>The branch for a path of length zero: times spread evenly by index. One round of
  the loop, then the loop.\<close>

definition even_step :: "ref list \<Rightarrow> datetime \<Rightarrow> real \<Rightarrow> nat \<Rightarrow> store \<Rightarrow> store" where
  "even_step refs start total_duration_seconds i h =
     (let fraction = (if length refs > 1 then real i / real (length refs - 1) else 0)
      in set_time h (refs ! i) (start + timedelta_seconds (total_duration_seconds * fraction)))"

definition assign_evenly :: "store \<Rightarrow> ref list \<Rightarrow> datetime \<Rightarrow> real \<Rightarrow> store" where
  "assign_evenly h refs start total_duration_seconds =
     fold (even_step refs start total_duration_seconds) [0..<length refs] h"

text \<open>The other branch: times in proportion to the distance covered. The state of the
  loop is the store and \<^verbatim>\<open>current_distance\<close>.\<close>

definition distance_step ::
  "ref list \<Rightarrow> datetime \<Rightarrow> real \<Rightarrow> real \<Rightarrow> nat \<Rightarrow> store \<times> real \<Rightarrow> store \<times> real" where
  "distance_step refs start total_duration_seconds total_distance i st =
     (case st of (h, current_distance) \<Rightarrow>
        let segment_distance = distance_to (h (refs ! (i - 1))) (h (refs ! i));
            current_distance' = current_distance + segment_distance;
            fraction_of_total_distance = current_distance' / total_distance
        in (set_time h (refs ! i)
              (start + timedelta_seconds (total_duration_seconds * fraction_of_total_distance)),
            current_distance'))"

definition assign_by_distance ::
  "store \<Rightarrow> ref list \<Rightarrow> datetime \<Rightarrow> real \<Rightarrow> real \<Rightarrow> store" where
  "assign_by_distance h refs start total_duration_seconds total_distance =
     fst (fold (distance_step refs start total_duration_seconds total_distance)
            [1..<length refs] (set_time h (refs ! 0) start, 0))"

definition assign_waypoint_times_if_needed ::
  "store \<Rightarrow> ref list \<Rightarrow> datetime \<Rightarrow> datetime \<Rightarrow> store" where
  "assign_waypoint_times_if_needed h refs start end =
     (if list_ex (\<lambda>r. wp_time (h r) = None) refs then
        let total_duration_seconds = total_seconds (end - start);
            total_distance = total_path_distance h refs;
            h' = (if total_distance = 0
                  then assign_evenly h refs start total_duration_seconds
                  else assign_by_distance h refs start total_duration_seconds total_distance)
        in if refs \<noteq> [] then set_time h' (last refs) end else h'
      else h)"

text \<open>
  \<^verbatim>\<open>Mission.__init__\<close>: the new store, and the mission as it reads right after
  construction.
\<close>

definition Mission_init ::
  "store \<Rightarrow> string \<Rightarrow> ref list \<Rightarrow> datetime \<Rightarrow> datetime \<Rightarrow> error + (store \<times> mission)" where
  "Mission_init h ident refs start end =
     (if ident = [] then Inl ValueError
      else if length refs < 2 then Inl ValueError
      else if start \<ge> end then Inl ValueError
      else
        let h' = assign_waypoint_times_if_needed h refs start end
        in Inr (h', \<lparr>drone_id = ident, waypoints = map h' refs,
                     start_time = start, end_time = end\<rparr>))"

section \<open>The two checks over the interpreter's own numbers\<close>

text \<open>
  The sections above idealise numbers as reals and times as unbounded integers. Whether
  a pair is emitted by the spatial check, or a Conflict returned by the temporal check,
  is decided by comparing computed numbers, and the interpreter's numbers round and
  overflow. The two checks are therefore embedded a second time without that idealisation:
  a number is a value of an arbitrary type \<open>'n\<close> (a Python \<^verbatim>\<open>int\<close> or \<^verbatim>\<open>float\<close>), and every
  operation the code applies to numbers is a parameter, a field of the record below, that
  returns whatever the interpreter returns, or the exception it raises. \<^verbatim>\<open>abs\<close>, the
  comparisons and \<^verbatim>\<open>total_seconds()\<close> never raise. A \<^verbatim>\<open>datetime\<close> is the number of
  microseconds since the first representable instant; arithmetic that leaves the
  representable range raises \<^verbatim>\<open>OverflowError\<close>.
\<close>

record 'n arith =
  num_add :: "'n \<Rightarrow> 'n \<Rightarrow> error + 'n"
  num_sub :: "'n \<Rightarrow> 'n \<Rightarrow> error + 'n"
  num_mul :: "'n \<Rightarrow> 'n \<Rightarrow> error + 'n"
  num_div :: "'n \<Rightarrow> 'n \<Rightarrow> error + 'n"
  num_square :: "'n \<Rightarrow> error + 'n"
  num_sqrt :: "'n \<Rightarrow> error + 'n"
  num_abs :: "'n \<Rightarrow> 'n"
  num_less :: "'n \<Rightarrow> 'n \<Rightarrow> bool"
  num_le :: "'n \<Rightarrow> 'n \<Rightarrow> bool"
  num_of_int :: "int \<Rightarrow> 'n"
  num_total_seconds :: "timedelta \<Rightarrow> 'n"

text \<open>Sequencing: the first exception raised ends the computation.\<close>

definition raise_or :: "error + 'a \<Rightarrow> ('a \<Rightarrow> error + 'b) \<Rightarrow> error + 'b" where
  "raise_or r f = (case r of Inl e \<Rightarrow> Inl e | Inr v \<Rightarrow> f v)"





















section \<open>Notions used in the statements\<close>

subsection \<open>Well-formed missions and trajectories\<close>

text \<open>
  Every sample of a trajectory, or waypoint of a mission, carries a time; and what the
  constructor has checked or established for a mission it accepted.
\<close>

definition times_present :: "waypoint list \<Rightarrow> bool" where
  "times_present wps = list_all (\<lambda>w. wp_time w \<noteq> None) wps"

definition mission_ok :: "mission \<Rightarrow> bool" where
  "mission_ok m \<longleftrightarrow>
     drone_id m \<noteq> [] \<and> 2 \<le> length (waypoints m) \<and> start_time m < end_time m \<and>
     times_present (waypoints m)"

text \<open>The cache of a system holds trajectories whose samples all carry a time.\<close>

definition cache_ok :: "(string \<rightharpoonup> waypoint list) \<Rightarrow> bool" where
  "cache_ok cache \<longleftrightarrow> (\<forall>k traj. cache k = Some traj \<longrightarrow> times_present traj)"

text \<open>The id list of a Conflict is strictly ascending (sorted, no duplicates).\<close>

definition ids_ok :: "conflict \<Rightarrow> bool" where
  "ids_ok c \<longleftrightarrow> sorted_wrt (<) (conflicting_drone_ids c) \<and> distinct (conflicting_drone_ids c)"

subsection \<open>The times written by the back-fill\<close>

text \<open>
  The distance covered up to waypoint \<open>k\<close>; the last position at which a reference occurs
  among the first \<open>k\<close> entries of the list; the time the back-fill leaves at position \<open>i\<close>
  (the last waypoint is set to \<open>end\<close> after the loop); the time the distance branch
  writes in its loop; and the store with every time erased.
\<close>

definition cum_dist :: "store \<Rightarrow> ref list \<Rightarrow> nat \<Rightarrow> real" where
  "cum_dist h refs k = (\<Sum>j<k. distance_to (h (refs ! j)) (h (refs ! (j + 1))))"

definition last_index :: "ref list \<Rightarrow> nat \<Rightarrow> ref \<Rightarrow> nat" where
  "last_index refs k r = Max {i. i < k \<and> refs ! i = r}"

definition backfill_time :: "store \<Rightarrow> ref list \<Rightarrow> datetime \<Rightarrow> datetime \<Rightarrow> nat \<Rightarrow> datetime" where
  "backfill_time h refs start end i =
     (if i = length refs - 1 then end
      else if total_path_distance h refs = 0
      then start + timedelta_seconds (total_seconds (end - start) * (real i / real (length refs - 1)))
      else start + timedelta_seconds
             (total_seconds (end - start) * (cum_dist h refs i / total_path_distance h refs)))"

definition distance_time :: "store \<Rightarrow> ref list \<Rightarrow> datetime \<Rightarrow> real \<Rightarrow> real \<Rightarrow> nat \<Rightarrow> datetime" where
  "distance_time h refs start D tot i =
     start + timedelta_seconds (D * (cum_dist h refs i / tot))"

definition forget_times :: "store \<Rightarrow> store" where
  "forget_times h = (\<lambda>r. (h r)\<lparr>wp_time := None\<rparr>)"

subsection \<open>Candidates and the refinement walk\<close>

text \<open>
  The test of the spatial check on a pair of samples. For the temporal check: both
  positions exist at \<open>t\<close> and are closer than the buffer; the midpoint of two positions,
  stamped \<open>t\<close>; the two ends of the interval \<open>[tc - w, tc + w]\<close> clipped to both missions'
  active windows; and a Conflict that reports the first instant \<open>t0 + k\<close> seconds, within
  \<open>stop\<close>, at which the missions are closer than the buffer.
\<close>

definition is_candidate :: "real \<Rightarrow> waypoint \<times> waypoint \<Rightarrow> bool" where
  "is_candidate buffer pr =
     (\<bar>total_seconds (the (wp_time (fst pr)) - the (wp_time (snd pr)))\<bar> < buffer * 2 \<and>
      calculate_distance (fst pr) (snd pr) < buffer)"

definition breach :: "mission \<Rightarrow> mission \<Rightarrow> real \<Rightarrow> datetime \<Rightarrow> bool" where
  "breach pm sm buffer t =
     (case (get_position_at_time pm t, get_position_at_time sm t) of
        (Inr (Some pp), Inr (Some ps)) \<Rightarrow> calculate_distance pp ps < buffer
      | _ \<Rightarrow> False)"

definition midpoint :: "waypoint \<Rightarrow> waypoint \<Rightarrow> datetime \<Rightarrow> waypoint" where
  "midpoint pp ps t =
     \<lparr>wp_x = (wp_x pp + wp_x ps) / 2, wp_y = (wp_y pp + wp_y ps) / 2,
      wp_z = (wp_z pp + wp_z ps) / 2, wp_time = Some t\<rparr>"

definition window_start :: "mission \<Rightarrow> mission \<Rightarrow> datetime \<Rightarrow> timedelta \<Rightarrow> datetime" where
  "window_start pm sm tc w = max (max (tc - w) (start_time pm)) (start_time sm)"

definition window_stop :: "mission \<Rightarrow> mission \<Rightarrow> datetime \<Rightarrow> timedelta \<Rightarrow> datetime" where
  "window_stop pm sm tc w = min (min (tc + w) (end_time pm)) (end_time sm)"

definition first_breach :: "mission \<Rightarrow> mission \<Rightarrow> real \<Rightarrow> datetime \<Rightarrow> datetime \<Rightarrow> conflict \<Rightarrow> bool" where
  "first_breach pm sm buffer t0 stop c =
     (\<exists>k::nat. t0 + seconds (int k) \<le> stop \<and> conflict_time c = t0 + seconds (int k) \<and>
        (\<forall>j<k. \<not> breach pm sm buffer (t0 + seconds (int j))) \<and>
        (\<exists>pp ps. get_position_at_time pm (t0 + seconds (int k)) = Inr (Some pp) \<and>
                 get_position_at_time sm (t0 + seconds (int k)) = Inr (Some ps) \<and>
                 calculate_distance pp ps < buffer \<and>
                 location c = midpoint pp ps (t0 + seconds (int k))) \<and>
        conflicting_drone_ids c = sorted_list_of_set {drone_id pm, drone_id sm})"

subsection \<open>Example values\<close>

text \<open>
  Stores and missions used as concrete instances: a store of blank Waypoint objects; two
  waypoints with supplied times that lie off the mission window, and the mission built
  from them; three waypoints of which two have no time, and the mission built from
  them; the two-waypoint mission of the repository's tests, with supplied times; the
  mission built from one blank Waypoint object listed twice; the zero-duration mission
  of the repository's tests; a mission whose supplied times step back; and two head-on
  missions with a candidate pair and the Conflict the temporal check reports for it.
\<close>

definition blank_store :: store where
  "blank_store = (\<lambda>r. \<lparr>wp_x = 0, wp_y = 0, wp_z = 0, wp_time = None\<rparr>)"

definition supplied_store :: store where
  "supplied_store = blank_store
     (0 := \<lparr>wp_x = 0, wp_y = 0, wp_z = 0, wp_time = Some (seconds 10)\<rparr>,
      1 := \<lparr>wp_x = 100, wp_y = 0, wp_z = 0, wp_time = Some (seconds 20)\<rparr>)"


definition partial_store :: store where
  "partial_store = blank_store
     (0 := \<lparr>wp_x = 0, wp_y = 0, wp_z = 0, wp_time = Some 0\<rparr>,
      1 := \<lparr>wp_x = 100, wp_y = 0, wp_z = 0, wp_time = None\<rparr>,
      2 := \<lparr>wp_x = 200, wp_y = 0, wp_z = 0, wp_time = None\<rparr>)"

definition partial_mission :: mission where
  "partial_mission = \<lparr>drone_id = ''DRONE_PARTIAL'',
      waypoints = [\<lparr>wp_x = 0, wp_y = 0, wp_z = 0, wp_time = Some 0\<rparr>,
                   \<lparr>wp_x = 100, wp_y = 0, wp_z = 0, wp_time = Some (seconds 300)\<rparr>,
                   \<lparr>wp_x = 200, wp_y = 0, wp_z = 0, wp_time = Some (seconds 600)\<rparr>],
      start_time = 0, end_time = seconds 600\<rparr>"


definition mission_2d :: mission where
  "mission_2d = \<lparr>drone_id = ''DRONE_2D'',
      waypoints = [\<lparr>wp_x = 0, wp_y = 0, wp_z = 0, wp_time = Some 0\<rparr>,
                   \<lparr>wp_x = 100, wp_y = 0, wp_z = 0, wp_time = Some (seconds 300)\<rparr>],
      start_time = 0, end_time = seconds 300\<rparr>"


definition jump :: mission where
  "jump = \<lparr>drone_id = ''JumpDrone'',
      waypoints = [\<lparr>wp_x = 0, wp_y = 0, wp_z = 0, wp_time = Some 0\<rparr>,
                   \<lparr>wp_x = 100, wp_y = 0, wp_z = 0, wp_time = Some 0\<rparr>,
                   \<lparr>wp_x = 200, wp_y = 0, wp_z = 0, wp_time = Some (seconds 60)\<rparr>],
      start_time = 0, end_time = seconds 60\<rparr>"

definition backstep :: mission where
  "backstep = \<lparr>drone_id = ''BackDrone'',
      waypoints = [\<lparr>wp_x = 0, wp_y = 0, wp_z = 0, wp_time = Some (seconds 8)\<rparr>,
                   \<lparr>wp_x = 10, wp_y = 0, wp_z = 0, wp_time = Some (seconds 5)\<rparr>,
                   \<lparr>wp_x = 10, wp_y = 10, wp_z = 0, wp_time = Some (seconds 5)\<rparr>,
                   \<lparr>wp_x = 20, wp_y = 10, wp_z = 0, wp_time = Some (seconds 10)\<rparr>],
      start_time = 0, end_time = seconds 10\<rparr>"

definition mission_A :: mission where
  "mission_A = \<lparr>drone_id = ''DroneA'',
      waypoints = [\<lparr>wp_x = 0, wp_y = 0, wp_z = 0, wp_time = Some 0\<rparr>,
                   \<lparr>wp_x = 100, wp_y = 0, wp_z = 0, wp_time = Some (seconds 600)\<rparr>],
      start_time = 0, end_time = seconds 600\<rparr>"

definition mission_B :: mission where
  "mission_B = \<lparr>drone_id = ''DroneB'',
      waypoints = [\<lparr>wp_x = 100, wp_y = 0, wp_z = 0, wp_time = Some 0\<rparr>,
                   \<lparr>wp_x = 0, wp_y = 0, wp_z = 0, wp_time = Some (seconds 600)\<rparr>],
      start_time = 0, end_time = seconds 600\<rparr>"

definition candidate_A :: waypoint where
  "candidate_A = \<lparr>wp_x = 91 / 2, wp_y = 0, wp_z = 0, wp_time = Some (seconds 273)\<rparr>"

definition candidate_B :: waypoint where
  "candidate_B = \<lparr>wp_x = 109 / 2, wp_y = 0, wp_z = 0, wp_time = Some (seconds 273)\<rparr>"

definition conflict_AB :: conflict where
  "conflict_AB = \<lparr>location = \<lparr>wp_x = 50, wp_y = 0, wp_z = 0, wp_time = Some (seconds 271)\<rparr>,
      conflict_time = seconds 271,
      conflicting_drone_ids = [''DroneA'', ''DroneB''],
      description = conflict_description mission_A mission_B\<rparr>"

subsection \<open>Notions for the checks over the interpreter's numbers\<close>













text \<open>
  Example values: arithmetic without rounding on the reals (\<^verbatim>\<open>math.sqrt\<close> of a negative
  number and division by zero raise), the two head-on missions, a candidate near their
  meeting point and one far from it, the Conflict reported for the first, and two short
  trajectories.
\<close>

definition exact_arith :: "real arith" where
  "exact_arith =
     \<lparr>num_add = (\<lambda>a b. Inr (a + b)),
      num_sub = (\<lambda>a b. Inr (a - b)),
      num_mul = (\<lambda>a b. Inr (a * b)),
      num_div = (\<lambda>a b. if b = 0 then Inl ZeroDivisionError else Inr (a / b)),
      num_square = (\<lambda>a. Inr (a\<^sup>2)),
      num_sqrt = (\<lambda>a. if a < 0 then Inl ValueError else Inr (sqrt a)),
      num_abs = abs,
      num_less = (<),
      num_le = (\<le>),
      num_of_int = real_of_int,
      num_total_seconds = total_seconds\<rparr>"








section \<open>Supporting lemmas\<close>

subsection \<open>Position queries\<close>

text \<open>With every waypoint time present a query never raises, and it answers nothing
  exactly outside the mission window.\<close>

lemma find_segment_ok:
  "times_present wps \<Longrightarrow> \<exists>r. find_segment wps q = Inr r \<and>
     (\<forall>a b. r = Some (a, b) \<longrightarrow> a \<in> set wps \<and> b \<in> set wps)"
proof (induction wps q rule: find_segment.induct)
  case (1 a b rest q)
  from "1.prems" obtain ta tb where t: "wp_time a = Some ta" "wp_time b = Some tb"
    and r: "times_present (b # rest)"
    by (auto simp: times_present_def)
  show ?case
  proof (cases "ta \<le> q \<and> q \<le> tb")
    case True
    then show ?thesis using t by simp
  next
    case False
    then have "find_segment (a # b # rest) q = find_segment (b # rest) q"
      using t by auto
    moreover have "\<exists>r. find_segment (b # rest) q = Inr r \<and>
       (\<forall>a b'. r = Some (a, b') \<longrightarrow> a \<in> set (b # rest) \<and> b' \<in> set (b # rest))"
      using False t "1.IH" r by (cases "ta \<le> q") auto
    ultimately show ?thesis by auto
  qed
qed simp_all

lemma position_returns:
  assumes "times_present (waypoints m)" "waypoints m \<noteq> []"
  shows "\<exists>r. get_position_at_time m q = Inr r \<and> (r = None \<longleftrightarrow> q < start_time m \<or> end_time m < q)"
proof -
  obtain seg where s: "find_segment (waypoints m) q = Inr seg"
    and mem: "\<forall>a b. seg = Some (a, b) \<longrightarrow> a \<in> set (waypoints m) \<and> b \<in> set (waypoints m)"
    using find_segment_ok [OF assms(1)] by blast
  have tp: "\<And>w. w \<in> set (waypoints m) \<Longrightarrow> \<exists>t. wp_time w = Some t"
    using assms(1) by (auto simp: times_present_def list_all_iff)
  show ?thesis
  proof (cases seg)
    case None
    then show ?thesis using s assms(2) by (auto simp: get_position_at_time_def)
  next
    case (Some p)
    obtain a b where p: "p = (a, b)" by (cases p)
    obtain ta tb where "wp_time a = Some ta" "wp_time b = Some tb"
      using mem Some p tp by blast
    then show ?thesis using s assms(2) Some p
      by (auto simp: get_position_at_time_def Let_def)
  qed
qed


subsection \<open>The sampling loop\<close>

lemma times_present_nth: "times_present wps \<Longrightarrow> i < length wps \<Longrightarrow> \<exists>t. wp_time (wps ! i) = Some t"
  by (auto simp: times_present_def list_all_length)

lemma advance_index_ok:
  "times_present wps \<Longrightarrow> i < length wps \<Longrightarrow>
     \<exists>j. advance_index wps i t = Inr j \<and> i \<le> j \<and> j < length wps"
proof (induction wps i t rule: advance_index.induct)
  case (1 wps i t)
  show ?case
  proof (cases "i + 1 < length wps")
    case False
    then show ?thesis using "1.prems" by (simp add: advance_index.simps [of wps i t])
  next
    case True
    then obtain t1 where t1: "wp_time (wps ! (i + 1)) = Some t1"
      using times_present_nth [OF "1.prems"(1), of "i + 1"] by auto
    show ?thesis
    proof (cases "t1 \<le> t")
      case False
      then show ?thesis using True t1 "1.prems" by (simp add: advance_index.simps [of wps i t])
    next
      case le: True
      from "1.IH" [OF True t1 le "1.prems"(1)] True
      obtain j where "advance_index wps (i + 1) t = Inr j" "i + 1 \<le> j" "j < length wps"
        by auto
      then show ?thesis using True t1 le by (simp add: advance_index.simps [of wps i t])
    qed
  qed
qed

lemma sample_at_ok:
  assumes "times_present wps" "i < length wps"
  shows "\<exists>w. sample_at wps i t = Inr w \<and> wp_time w = Some t"
proof (cases "i = length wps - 1")
  case True
  then show ?thesis by (simp add: sample_at_def Let_def)
next
  case False
  then have "i + 1 < length wps" using assms(2) by simp
  then obtain t1 t2 where "wp_time (wps ! i) = Some t1" "wp_time (wps ! (i + 1)) = Some t2"
    using times_present_nth [OF assms(1)] assms(2) by blast
  then show ?thesis using False
    by (simp add: sample_at_def Let_def interpolate_between_def)
qed

lemma interpolate_loop_returns:
  assumes tp: "times_present (waypoints m)" and step: "0 < step"
  shows "i < length (waypoints m) \<Longrightarrow>
     \<exists>samples. interpolate_loop m step cur i path = Some (Inr (path @ samples)) \<and>
        times_present samples \<and>
        (cur \<le> end_time m \<longrightarrow> samples \<noteq> [] \<and> wp_time (hd samples) = Some cur \<and>
           (\<exists>t. wp_time (last samples) = Some t \<and> t \<le> end_time m)) \<and>
        (end_time m < cur \<longrightarrow> samples = [])"
proof (induction "nat (end_time m - cur + 1)" arbitrary: cur i path rule: less_induct)
  case less
  show ?case
  proof (cases "cur \<le> end_time m")
    case False
    then show ?thesis
      by (subst interpolate_loop.simps) (simp add: times_present_def)
  next
    case True
    obtain j where j: "advance_index (waypoints m) i cur = Inr j" "j < length (waypoints m)"
      using advance_index_ok [OF tp less.prems] by blast
    obtain w where w: "sample_at (waypoints m) j cur = Inr w" "wp_time w = Some cur"
      using sample_at_ok [OF tp j(2)] by blast
    have "nat (end_time m - (cur + step) + 1) < nat (end_time m - cur + 1)"
      using True step by simp
    from less.hyps [OF this j(2), of "path @ [w]"]
    obtain samples where s: "interpolate_loop m step (cur + step) j (path @ [w]) = Some (Inr ((path @ [w]) @ samples))"
      "times_present samples"
      "cur + step \<le> end_time m \<longrightarrow> samples \<noteq> [] \<and> wp_time (hd samples) = Some (cur + step) \<and>
           (\<exists>t. wp_time (last samples) = Some t \<and> t \<le> end_time m)"
      "end_time m < cur + step \<longrightarrow> samples = []"
      by blast
    have eq: "interpolate_loop m step cur i path = Some (Inr (path @ (w # samples)))"
      by (subst interpolate_loop.simps) (simp add: True j w s)
    have "times_present (w # samples)" using s(2) w(2) by (simp add: times_present_def)
    moreover have "\<exists>t. wp_time (last (w # samples)) = Some t \<and> t \<le> end_time m"
      using s(3,4) w(2) True by (cases "cur + step \<le> end_time m") auto
    ultimately show ?thesis using eq w(2) True by (intro exI [of _ "w # samples"]) simp
  qed
qed

text \<open>With a step of at least one microsecond the sampling returns a non-empty trajectory
  from \<open>start_time\<close> to \<open>end_time\<close>.\<close>

lemma interpolate_returns:
  assumes ok: "mission_ok m" and s: "0 < s" and td: "0 < timedelta_seconds s"
  shows "\<exists>traj. interpolate_trajectory m s = Some (Inr traj) \<and> traj \<noteq> [] \<and>
           times_present traj \<and>
           wp_time (hd traj) = Some (start_time m) \<and> wp_time (last traj) = Some (end_time m)"
proof -
  from ok have tp: "times_present (waypoints m)" and len: "2 \<le> length (waypoints m)"
    and se: "start_time m < end_time m"
    by (simp_all add: mission_ok_def)
  have l0: "0 < length (waypoints m)" using len by (cases "waypoints m") simp_all
  obtain samples where L: "interpolate_loop m (timedelta_seconds s) (start_time m) 0 [] = Some (Inr samples)"
    and tps: "times_present samples" and ne: "samples \<noteq> []"
    and h: "wp_time (hd samples) = Some (start_time m)"
    and la: "\<exists>t. wp_time (last samples) = Some t \<and> t \<le> end_time m"
    using interpolate_loop_returns [OF tp td l0, of "start_time m" "[]"] se by auto
  from la obtain t where t: "wp_time (last samples) = Some t" "t \<le> end_time m" by blast
  show ?thesis
  proof (cases "t < end_time m")
    case False
    then have "t = end_time m" using t(2) by simp
    then show ?thesis using L tps ne h t s len l0
      by (auto simp: interpolate_trajectory_def needs_final_def)
  next
    case True
    obtain j where j: "advance_index (waypoints m) 0 (end_time m) = Inr j" "j < length (waypoints m)"
      using advance_index_ok [OF tp l0] by blast
    obtain w where w: "sample_at (waypoints m) j (end_time m) = Inr w" "wp_time w = Some (end_time m)"
      using sample_at_ok [OF tp j(2)] by blast
    have "interpolate_trajectory m s = Some (Inr (samples @ [w]))"
      using L ne t True s len j w l0 by (auto simp: interpolate_trajectory_def needs_final_def)
    moreover have "times_present (samples @ [w])" using tps w(2) by (simp add: times_present_def)
    ultimately show ?thesis using ne h w(2) by auto
  qed
qed

text \<open>With the zero step the loop can only end by an exception, and there is none: it
  does not end.\<close>

lemma interpolate_loop_zero_step:
  assumes "interpolate_loop m step cur i path = Some r"
  shows "step = 0 \<longrightarrow> end_time m < cur \<or> (\<exists>e. r = Inl e)"
proof (rule interpolate_loop.raw_induct
    [where P = "\<lambda>m step cur i path r. step = 0 \<longrightarrow> end_time m < cur \<or> (\<exists>e. r = Inl e)",
     OF _ assms])
  fix f m step cur i path r
  assume IH: "\<And>m step cur i path r. f m step cur i path = Some r \<Longrightarrow>
       step = 0 \<longrightarrow> end_time m < cur \<or> (\<exists>e. r = Inl e)"
    and eq: "(if cur \<le> end_time m
      then case advance_index (waypoints m) i cur of
           Inl e \<Rightarrow> Some (Inl e)
           | Inr j \<Rightarrow>
               case sample_at (waypoints m) j cur of
               Inl e \<Rightarrow> Some (Inl e)
               | Inr wp \<Rightarrow> f m step (cur + step) j (path @ [wp])
      else Some (Inr path)) = Some r"
  show "step = 0 \<longrightarrow> end_time m < cur \<or> (\<exists>e. r = Inl e)"
    using eq IH by (fastforce split: if_splits sum.splits)
qed

lemma interpolate_loop_no_error:
  assumes "interpolate_loop m step cur i path = Some r"
  shows "times_present (waypoints m) \<longrightarrow> i < length (waypoints m) \<longrightarrow> (\<exists>p. r = Inr p)"
proof (rule interpolate_loop.raw_induct
    [where P = "\<lambda>m step cur i path r.
        times_present (waypoints m) \<longrightarrow> i < length (waypoints m) \<longrightarrow> (\<exists>p. r = Inr p)",
     OF _ assms])
  fix f m step cur i path r
  assume IH: "\<And>m step cur i path r. f m step cur i path = Some r \<Longrightarrow>
       times_present (waypoints m) \<longrightarrow> i < length (waypoints m) \<longrightarrow> (\<exists>p. r = Inr p)"
    and eq: "(if cur \<le> end_time m
      then case advance_index (waypoints m) i cur of
           Inl e \<Rightarrow> Some (Inl e)
           | Inr j \<Rightarrow>
               case sample_at (waypoints m) j cur of
               Inl e \<Rightarrow> Some (Inl e)
               | Inr wp \<Rightarrow> f m step (cur + step) j (path @ [wp])
      else Some (Inr path)) = Some r"
  show "times_present (waypoints m) \<longrightarrow> i < length (waypoints m) \<longrightarrow> (\<exists>p. r = Inr p)"
  proof (intro impI)
    assume tp: "times_present (waypoints m)" and il: "i < length (waypoints m)"
    from advance_index_ok [OF tp il, of cur]
    obtain j where j: "advance_index (waypoints m) i cur = Inr j" "j < length (waypoints m)" by blast
    from sample_at_ok [OF tp j(2), of cur]
    obtain w where w: "sample_at (waypoints m) j cur = Inr w" by blast
    show "\<exists>p. r = Inr p"
    proof (cases "cur \<le> end_time m")
      case True
      then have "f m step (cur + step) j (path @ [w]) = Some r"
        using eq j w by simp
      from IH [OF this] tp j(2) show ?thesis by simp
    next
      case False
      then show ?thesis using eq by auto
    qed
  qed
qed

lemma interpolate_diverges:
  assumes ok: "mission_ok m" and s: "0 < s" and td: "timedelta_seconds s = 0"
  shows "interpolate_trajectory m s = None"
proof -
  from ok have tp: "times_present (waypoints m)" and len: "2 \<le> length (waypoints m)"
    and se: "start_time m < end_time m"
    by (simp_all add: mission_ok_def)
  have "interpolate_loop m 0 (start_time m) 0 [] = None"
  proof (cases "interpolate_loop m 0 (start_time m) 0 []")
    case (Some r)
    from interpolate_loop_zero_step [OF Some] se obtain e where "r = Inl e" by auto
    moreover have "0 < length (waypoints m)" using len by (cases "waypoints m") simp_all
    with interpolate_loop_no_error [OF Some] tp obtain p where "r = Inr p" by auto
    ultimately show ?thesis by simp
  qed simp
  then show ?thesis using s len td by (auto simp: interpolate_trajectory_def)
qed

lemma td_small: "timedelta_seconds (1 / 10000000) = 0"
  by (simp add: timedelta_seconds_def round_half_even_def)

lemma td1: "timedelta_seconds 1 = 1000000"
  by (simp add: timedelta_seconds_def round_half_even_def)

subsection \<open>Rounding to microseconds\<close>

lemma round_half_even_of_int [simp]: "round_half_even (of_int n) = n"
  by (simp add: round_half_even_def)






subsection \<open>The back-fill loops on the store\<close>

text \<open>A loop that writes a time at each position of the list leaves, at every reference of
  the list, the time written at its last occurrence; both branches of the back-fill are
  such loops.\<close>

lemma set_time_apply:
  "set_time h r t q = (if q = r then (h r)\<lparr>wp_time := Some t\<rparr> else h q)"
  by (simp add: set_time_def)

lemma last_index_Suc:
  "last_index refs (Suc k) r = (if refs ! k = r then k else last_index refs k r)"
proof (cases "refs ! k = r")
  case True
  have "Max {i. i < Suc k \<and> refs ! i = r} = k"
    by (rule Max_eqI) (use True in auto)
  then show ?thesis using True by (simp add: last_index_def)
next
  case False
  have "{i. i < Suc k \<and> refs ! i = r} = {i. i < k \<and> refs ! i = r}"
    using False by (auto simp: less_Suc_eq)
  then show ?thesis using False by (simp add: last_index_def)
qed

lemma last_index_distinct:
  assumes "distinct refs" "i < k" "k \<le> length refs"
  shows "last_index refs k (refs ! i) = i"
proof -
  have "{j. j < k \<and> refs ! j = refs ! i} = {i}"
    using assms by (auto simp: nth_eq_iff_index_eq)
  then show ?thesis by (simp add: last_index_def)
qed

lemma fold_set_time:
  "k \<le> length refs \<Longrightarrow>
   fold (\<lambda>i h. set_time h (refs ! i) (f i)) [0..<k] h =
     (\<lambda>r. if r \<in> set (take k refs) then (h r)\<lparr>wp_time := Some (f (last_index refs k r))\<rparr>
          else h r)"
proof (induction k)
  case 0
  then show ?case by simp
next
  case (Suc k)
  then have k: "k < length refs" by simp
  have tk: "set (take (Suc k) refs) = insert (refs ! k) (set (take k refs))"
    using k by (simp add: take_Suc_conv_app_nth)
  show ?case
    using Suc.IH k
    by (auto simp: fun_eq_iff set_time_apply tk last_index_Suc)
qed

lemma distance_to_update_time [simp]:
  "distance_to (a\<lparr>wp_time := s\<rparr>) b = distance_to a b"
  "distance_to a (b\<lparr>wp_time := t\<rparr>) = distance_to a b"
  by (simp_all add: distance_to_def)

lemma distance_to_nonneg [simp]: "0 \<le> distance_to a b"
  by (simp add: distance_to_def Let_def)

lemma total_path_distance_cum:
  "total_path_distance h refs = cum_dist h refs (length refs - 1)"
proof -
  have "fold (\<lambda>i total. total + distance_to (h (refs ! i)) (h (refs ! (i + 1)))) [0..<k] a
          = a + cum_dist h refs k" for k a
    by (induction k arbitrary: a) (simp_all add: cum_dist_def)
  then show ?thesis by (simp add: total_path_distance_def)
qed

lemma cum_dist_0 [simp]: "cum_dist h refs 0 = 0"
  by (simp add: cum_dist_def)

lemma cum_dist_Suc:
  "cum_dist h refs (Suc k) = cum_dist h refs k + distance_to (h (refs ! k)) (h (refs ! Suc k))"
  by (simp add: cum_dist_def)


lemma cum_dist_nonneg [simp]: "0 \<le> cum_dist h refs k"
  unfolding cum_dist_def by (rule sum_nonneg) simp

lemma timedelta_seconds_0 [simp]: "timedelta_seconds 0 = 0"
  using round_half_even_of_int [of 0] by (simp add: timedelta_seconds_def)

lemma distance_fold:
  assumes "Suc j \<le> length refs"
  shows "fold (distance_step refs start D tot) [1..<Suc j] (set_time h (refs ! 0) start, 0) =
     (fold (\<lambda>i h'. set_time h' (refs ! i) (distance_time h refs start D tot i)) [0..<Suc j] h,
      cum_dist h refs j)"
  using assms
proof (induction j)
  case 0
  then show ?case by (simp add: distance_time_def)
next
  case (Suc j)
  define f where "f = (\<lambda>i (h' :: store). set_time h' (refs ! i) (distance_time h refs start D tot i))"
  define H where "H = fold f [0..<Suc j] h"
  have IH: "fold (distance_step refs start D tot) [1..<Suc j] (set_time h (refs ! 0) start, 0)
      = (H, cum_dist h refs j)"
    using Suc by (simp add: H_def f_def)
  have "H = (\<lambda>r. if r \<in> set (take (Suc j) refs)
        then (h r)\<lparr>wp_time := Some (distance_time h refs start D tot (last_index refs (Suc j) r))\<rparr>
        else h r)"
    unfolding H_def f_def using Suc.prems by (intro fold_set_time) simp
  then have d: "distance_to (H x) (H y) = distance_to (h x) (h y)" for x y
    by simp
  have "fold (distance_step refs start D tot) [1..<Suc (Suc j)] (set_time h (refs ! 0) start, 0)
      = distance_step refs start D tot (Suc j) (H, cum_dist h refs j)"
    using IH by simp
  also have "\<dots> = (f (Suc j) H, cum_dist h refs (Suc j))"
    by (simp add: distance_step_def Let_def d distance_time_def cum_dist_Suc f_def)
  also have "f (Suc j) H = fold f [0..<Suc (Suc j)] h"
    by (simp add: H_def)
  finally show ?case by (simp add: f_def)
qed

lemma last_index_in:
  assumes "r \<in> set (take k refs)" "k \<le> length refs"
  shows "last_index refs k r < k \<and> refs ! last_index refs k r = r"
proof -
  let ?S = "{i. i < k \<and> refs ! i = r}"
  have "finite ?S" by simp
  moreover from assms obtain i where "i < k" "refs ! i = r"
    by (auto simp: in_set_conv_nth)
  then have "?S \<noteq> {}" by blast
  ultimately have "Max ?S \<in> ?S" by (rule Max_in)
  then show ?thesis by (simp add: last_index_def)
qed

lemma last_index_last:
  assumes "refs \<noteq> []"
  shows "last_index refs (length refs) (last refs) = length refs - 1"
proof -
  obtain n where n: "length refs = Suc n" using assms by (cases refs) auto
  then have "refs ! n = last refs" using assms by (simp add: last_conv_nth)
  then show ?thesis using n by (simp add: last_index_Suc)
qed

lemma last_index_not_last:
  assumes "r \<in> set refs" "r \<noteq> last refs"
  shows "last_index refs (length refs) r \<noteq> length refs - 1"
proof -
  from assms(1) have ne: "refs \<noteq> []" by auto
  from last_index_in [of r "length refs" refs] assms(1)
  have "refs ! last_index refs (length refs) r = r" by simp
  then show ?thesis using assms(2) ne by (auto simp: last_conv_nth)
qed

lemma backfill_fold:
  assumes ne: "refs \<noteq> []"
  shows "(if total_path_distance h refs = 0
          then assign_evenly h refs start (total_seconds (e - start))
          else assign_by_distance h refs start (total_seconds (e - start)) (total_path_distance h refs))
       = fold (\<lambda>i h'. set_time h' (refs ! i)
            (if total_path_distance h refs = 0
             then start + timedelta_seconds (total_seconds (e - start) *
                    (if length refs > 1 then real i / real (length refs - 1) else 0))
             else distance_time h refs start (total_seconds (e - start)) (total_path_distance h refs) i))
          [0..<length refs] h"
proof (cases "total_path_distance h refs = 0")
  case True
  have "even_step refs start (total_seconds (e - start)) =
      (\<lambda>i h'. set_time h' (refs ! i) (start + timedelta_seconds (total_seconds (e - start) *
                    (if length refs > 1 then real i / real (length refs - 1) else 0))))"
    by (intro ext) (simp add: even_step_def Let_def)
  then show ?thesis using True by (simp add: assign_evenly_def)
next
  case False
  obtain n where n: "length refs = Suc n" using ne by (cases refs) auto
  show ?thesis
    using False distance_fold [of n refs start "total_seconds (e - start)" "total_path_distance h refs" h]
    by (simp add: assign_by_distance_def n)
qed

lemma assign_closed_form:
  assumes "list_ex (\<lambda>r. wp_time (h r) = None) refs"
  shows "assign_waypoint_times_if_needed h refs start e =
     (\<lambda>r. if r \<in> set refs
          then (h r)\<lparr>wp_time := Some (backfill_time h refs start e (last_index refs (length refs) r))\<rparr>
          else h r)"
proof -
  from assms have ne: "refs \<noteq> []" by auto
  define f where "f = (\<lambda>i. if total_path_distance h refs = 0
             then start + timedelta_seconds (total_seconds (e - start) *
                    (if length refs > 1 then real i / real (length refs - 1) else 0))
             else distance_time h refs start (total_seconds (e - start)) (total_path_distance h refs) i)"
  have f: "i \<noteq> length refs - 1 \<Longrightarrow> i < length refs \<Longrightarrow> f i = backfill_time h refs start e i" for i
    by (auto simp: f_def backfill_time_def distance_time_def)
  have "assign_waypoint_times_if_needed h refs start e
      = set_time (fold (\<lambda>i h'. set_time h' (refs ! i) (f i)) [0..<length refs] h) (last refs) e"
    using assms ne backfill_fold [OF ne, of h start e]
    by (simp add: assign_waypoint_times_if_needed_def Let_def f_def)
  also have "\<dots> = set_time (\<lambda>r. if r \<in> set refs
        then (h r)\<lparr>wp_time := Some (f (last_index refs (length refs) r))\<rparr> else h r) (last refs) e"
    by (simp add: fold_set_time)
  also have "\<dots> = (\<lambda>r. if r \<in> set refs
          then (h r)\<lparr>wp_time := Some (backfill_time h refs start e (last_index refs (length refs) r))\<rparr>
          else h r)"
  proof (rule ext)
    fix r
    show "set_time (\<lambda>r. if r \<in> set refs
        then (h r)\<lparr>wp_time := Some (f (last_index refs (length refs) r))\<rparr> else h r) (last refs) e r
      = (if r \<in> set refs
          then (h r)\<lparr>wp_time := Some (backfill_time h refs start e (last_index refs (length refs) r))\<rparr>
          else h r)"
    proof (cases "r = last refs")
      case True
      then show ?thesis using ne last_index_last [OF ne]
        by (simp add: set_time_apply backfill_time_def)
    next
      case False
      show ?thesis
      proof (cases "r \<in> set refs")
        case True
        from last_index_in [of r "length refs" refs] True
        have "last_index refs (length refs) r < length refs" by simp
        with f [OF last_index_not_last [OF True False]] True False
        show ?thesis by (simp add: set_time_apply)
      next
        case nin: False
        then show ?thesis using False by (simp add: set_time_apply)
      qed
    qed
  qed
  finally show ?thesis .
qed





subsection \<open>The constructor\<close>




lemma backfilled_waypoint:
  assumes "list_ex (\<lambda>r. wp_time (h r) = None) refs" "distinct refs" "i < length refs"
  shows "assign_waypoint_times_if_needed h refs start e (refs ! i) =
           (h (refs ! i))\<lparr>wp_time := Some (backfill_time h refs start e i)\<rparr>"
  using assms by (simp add: assign_closed_form last_index_distinct)



subsection \<open>The example missions, constructed\<close>


lemma sqrt_10000: "sqrt 10000 = 100"
  using real_sqrt_abs [of 100] by simp

lemma partial_store_apply:
  "partial_store 0 = \<lparr>wp_x = 0, wp_y = 0, wp_z = 0, wp_time = Some 0\<rparr>"
  "partial_store (Suc 0) = \<lparr>wp_x = 100, wp_y = 0, wp_z = 0, wp_time = None\<rparr>"
  "partial_store 2 = \<lparr>wp_x = 200, wp_y = 0, wp_z = 0, wp_time = None\<rparr>"
  "partial_store (Suc (Suc 0)) = \<lparr>wp_x = 200, wp_y = 0, wp_z = 0, wp_time = None\<rparr>"
  by (simp_all add: partial_store_def numeral_2_eq_2 [symmetric])

lemma partial_distances:
  "distance_to (partial_store 0) (partial_store (Suc 0)) = 100"
  "distance_to (partial_store (Suc 0)) (partial_store 2) = 100"
  "distance_to (partial_store (Suc 0)) (partial_store (Suc (Suc 0))) = 100"
  by (simp_all add: partial_store_apply distance_to_def sqrt_10000)

lemma partial_cum: "cum_dist partial_store [0, Suc 0, 2] (Suc 0) = 100"
  "total_path_distance partial_store [0, Suc 0, 2] = 200"
  by (simp_all add: total_path_distance_cum cum_dist_def partial_distances numeral_2_eq_2 del: One_nat_def)

lemma partial_missing: "list_ex (\<lambda>r. wp_time (partial_store r) = None) [0, Suc 0, 2]"
  by (simp add: partial_store_apply)

lemma partial_times:
  "backfill_time partial_store [0, Suc 0, 2] 0 (seconds 600) 0 = 0"
  "backfill_time partial_store [0, Suc 0, 2] 0 (seconds 600) (Suc 0) = seconds 300"
  "backfill_time partial_store [0, Suc 0, 2] 0 (seconds 600) 2 = seconds 600"
  by (simp_all add: backfill_time_def partial_cum seconds_def total_seconds_def timedelta_seconds_def
      round_half_even_def)

lemma partial_assigned:
  "map (assign_waypoint_times_if_needed partial_store [0, Suc 0, 2] 0 (seconds 600)) [0, Suc 0, 2] =
     waypoints partial_mission"
proof -
  have d: "distinct [0, Suc 0, 2::nat]" by simp
  have "assign_waypoint_times_if_needed partial_store [0, Suc 0, 2] 0 (seconds 600) ([0, Suc 0, 2] ! i) =
      (partial_store ([0, Suc 0, 2] ! i))\<lparr>wp_time := Some (backfill_time partial_store [0, Suc 0, 2] 0 (seconds 600) i)\<rparr>"
    if "i < 3" for i
    using backfilled_waypoint [OF partial_missing d, of i 0 "seconds 600"] that by simp
  from this [of 0] this [of "Suc 0"] this [of 2]
  show ?thesis by (simp add: partial_times partial_store_apply partial_mission_def)
qed

lemma partial_mission_init: "map_sum id snd (Mission_init partial_store ''DRONE_PARTIAL'' [0, 1, 2] 0 (seconds 600)) = Inr partial_mission"
  using partial_assigned by (simp add: Mission_init_def Let_def partial_mission_def seconds_def)



lemma td10: "timedelta_seconds 10 = 10000000"
  by (simp add: timedelta_seconds_def round_half_even_def)

lemma td5: "timedelta_seconds 5 = 5000000"
  by (simp add: timedelta_seconds_def round_half_even_def)

lemma mission_2d_ok: "mission_ok mission_2d"
  by (simp add: mission_ok_def mission_2d_def times_present_def seconds_def)

subsection \<open>The spatial check\<close>

lemma scan_simulated_filter:
  assumes "wp_time p = Some tp"
  shows "times_present ss \<Longrightarrow>
     scan_simulated p ss buffer acc = Inr (acc @ filter (is_candidate buffer) (map (Pair p) ss))"
proof (induction ss arbitrary: acc)
  case Nil
  then show ?case by simp
next
  case (Cons s ss)
  from Cons.prems obtain ts where ts: "wp_time s = Some ts" and r: "times_present ss"
    by (auto simp: times_present_def)
  show ?case
    using assms ts Cons.IH [OF r] by (simp add: is_candidate_def Let_def)
qed

lemma scan_primary_filter:
  "times_present ps \<Longrightarrow> times_present ss \<Longrightarrow>
     scan_primary ps ss buffer acc = Inr (acc @ filter (is_candidate buffer) (List.product ps ss))"
proof (induction ps arbitrary: acc)
  case Nil
  then show ?case by simp
next
  case (Cons p ps)
  from Cons.prems obtain tp where tp: "wp_time p = Some tp" and r: "times_present ps"
    by (auto simp: times_present_def)
  show ?case
    using scan_simulated_filter [OF tp Cons.prems(2)] Cons.IH [OF r Cons.prems(2)]
    by simp
qed

subsection \<open>The temporal check\<close>

lemma conflict_description_nonempty: "conflict_description pm sm \<noteq> []"
  by (simp add: conflict_description_def)

lemma seconds_Suc: "t + seconds (int (Suc k)) = (t + seconds 1) + seconds (int k)"
  by (simp add: seconds_def algebra_simps)

lemma temporal_loop_spec:
  assumes p: "times_present (waypoints pm)" "waypoints pm \<noteq> []"
    and s: "times_present (waypoints sm)" "waypoints sm \<noteq> []"
  shows "\<exists>r. temporal_loop pm sm buffer stop cur = Inr r \<and>
     (case r of
        None \<Rightarrow> (\<forall>k::nat. cur + seconds (int k) \<le> stop \<longrightarrow> \<not> breach pm sm buffer (cur + seconds (int k)))
      | Some c \<Rightarrow> first_breach pm sm buffer cur stop c)"
proof (induction "nat (stop - cur + 1)" arbitrary: cur rule: less_induct)
  case less
  show ?case
  proof (cases "cur \<le> stop")
    case False
    have "temporal_loop pm sm buffer stop cur = Inr None"
      using False by (simp add: temporal_loop.simps [of pm sm buffer stop cur])
    moreover have "\<not> cur + seconds (int k) \<le> stop" for k
      using False by (simp add: seconds_def)
    ultimately show ?thesis by simp
  next
    case True
    obtain rp where rp: "get_position_at_time pm cur = Inr rp"
      using position_returns [OF p] by blast
    obtain rs where rs: "get_position_at_time sm cur = Inr rs"
      using position_returns [OF s] by blast
    show ?thesis
    proof (cases "breach pm sm buffer cur")
      case br: True
      then obtain pp ps where pos: "rp = Some pp" "rs = Some ps" and d: "calculate_distance pp ps < buffer"
        using rp rs by (auto simp: breach_def split: option.splits)
      define c where "c = \<lparr>location = midpoint pp ps cur, conflict_time = cur,
          conflicting_drone_ids = sorted_list_of_set {drone_id pm, drone_id sm},
          description = conflict_description pm sm\<rparr>"
      have "temporal_loop pm sm buffer stop cur = Inr (Some c)"
        using True rp rs pos d conflict_description_nonempty [of pm sm]
        by (simp add: temporal_loop.simps [of pm sm buffer stop cur] Conflict_init_def c_def midpoint_def)
      moreover have "first_breach pm sm buffer cur stop c"
        unfolding first_breach_def
        using True rp rs pos d by (intro exI [of _ 0]) (simp add: c_def seconds_def)
      ultimately show ?thesis by simp
    next
      case nb: False
      have step: "temporal_loop pm sm buffer stop cur = temporal_loop pm sm buffer stop (cur + seconds 1)"
        using True rp rs nb
        by (auto simp: temporal_loop.simps [of pm sm buffer stop cur] breach_def split: option.splits)
      have "nat (stop - (cur + seconds 1) + 1) < nat (stop - cur + 1)"
        using True by (simp add: seconds_def)
      from less.hyps [OF this] obtain r where
        r: "temporal_loop pm sm buffer stop (cur + seconds 1) = Inr r"
        and c: "case r of
            None \<Rightarrow> (\<forall>k::nat. (cur + seconds 1) + seconds (int k) \<le> stop \<longrightarrow>
                        \<not> breach pm sm buffer ((cur + seconds 1) + seconds (int k)))
          | Some c \<Rightarrow> first_breach pm sm buffer (cur + seconds 1) stop c"
        by blast
      show ?thesis
      proof (cases r)
        case None
        have "\<not> breach pm sm buffer (cur + seconds (int k))" if "cur + seconds (int k) \<le> stop" for k
        proof (cases k)
          case 0
          then show ?thesis using nb by (simp add: seconds_def)
        next
          case (Suc k')
          then show ?thesis using c None that unfolding Suc seconds_Suc by simp
        qed
        then show ?thesis using step r None by simp
      next
        case (Some c')
        from c Some obtain k where k: "(cur + seconds 1) + seconds (int k) \<le> stop"
          "conflict_time c' = (cur + seconds 1) + seconds (int k)"
          "\<forall>j<k. \<not> breach pm sm buffer ((cur + seconds 1) + seconds (int j))"
          "\<exists>pp ps. get_position_at_time pm ((cur + seconds 1) + seconds (int k)) = Inr (Some pp) \<and>
                 get_position_at_time sm ((cur + seconds 1) + seconds (int k)) = Inr (Some ps) \<and>
                 calculate_distance pp ps < buffer \<and>
                 location c' = midpoint pp ps ((cur + seconds 1) + seconds (int k))"
          "conflicting_drone_ids c' = sorted_list_of_set {drone_id pm, drone_id sm}"
          unfolding first_breach_def by auto
        have nbj: "\<not> breach pm sm buffer (cur + seconds (int j))" if "j < Suc k" for j
        proof (cases j)
          case 0
          then show ?thesis using nb by (simp add: seconds_def)
        next
          case (Suc j')
          then show ?thesis using k(3) that unfolding Suc seconds_Suc by simp
        qed
        have "first_breach pm sm buffer cur stop c'"
          unfolding first_breach_def
          apply (rule exI [of _ "Suc k"])
          using k nbj unfolding seconds_Suc by blast
        then show ?thesis using step r Some by simp
      qed
    qed
  qed
qed

lemma calculate_distance_less:
  "0 < b \<Longrightarrow> calculate_distance p q < b \<longleftrightarrow>
     (wp_x p - wp_x q)\<^sup>2 + (wp_y p - wp_y q)\<^sup>2 + (wp_z p - wp_z q)\<^sup>2 < b\<^sup>2"
proof -
  assume b: "0 < b"
  have "sqrt (b\<^sup>2) = b" using b by simp
  then show ?thesis
    using real_sqrt_less_iff [of "(wp_x p - wp_x q)\<^sup>2 + (wp_y p - wp_y q)\<^sup>2 + (wp_z p - wp_z q)\<^sup>2" "b\<^sup>2"]
    by (simp add: calculate_distance_def Let_def)
qed

lemma ids_AB: "sorted_list_of_set {''DroneA'', ''DroneB''} = [''DroneA'', ''DroneB'']"
  by code_simp

lemma pos_A: "0 \<le> t \<Longrightarrow> t < 600 \<Longrightarrow> t \<noteq> 0 \<Longrightarrow> get_position_at_time mission_A (seconds t) =
   Inr (Some \<lparr>wp_x = real_of_int t / 6, wp_y = 0, wp_z = 0, wp_time = Some (seconds t)\<rparr>)"
  by (simp add: get_position_at_time_def mission_A_def seconds_def interpolate_between_def total_seconds_def)

lemma pos_B: "0 \<le> t \<Longrightarrow> t < 600 \<Longrightarrow> t \<noteq> 0 \<Longrightarrow> get_position_at_time mission_B (seconds t) =
   Inr (Some \<lparr>wp_x = 100 - real_of_int t / 6, wp_y = 0, wp_z = 0, wp_time = Some (seconds t)\<rparr>)"
  by (simp add: get_position_at_time_def mission_B_def seconds_def interpolate_between_def total_seconds_def
     field_simps)

lemma refine_AB:
  "check_temporal_overlap_at_location mission_A mission_B candidate_A candidate_B 10 (seconds 5)
     = Inr (Some conflict_AB)"
proof -
  have sec: "seconds a + seconds b = seconds (a + b)" for a b by (simp add: seconds_def algebra_simps)
  have st: "start_time mission_A = seconds 0" "start_time mission_B = seconds 0"
    "end_time mission_A = seconds 600" "end_time mission_B = seconds 600"
    by (simp_all add: mission_A_def mission_B_def seconds_def)
  have le: "seconds a \<le> seconds b \<longleftrightarrow> a \<le> b" for a b by (simp add: seconds_def)
  have d: "drone_id mission_A = ''DroneA''" "drone_id mission_B = ''DroneB''"
    by (simp_all add: mission_A_def mission_B_def)
  have l3: "temporal_loop mission_A mission_B 10 (seconds 278) (seconds 271) = Inr (Some conflict_AB)"
    by (subst temporal_loop.simps)
       (simp add: le pos_A pos_B calculate_distance_less Conflict_init_def conflict_description_nonempty
          conflict_AB_def d ids_AB power2_eq_square)
  have l2: "temporal_loop mission_A mission_B 10 (seconds 278) (seconds 270) = Inr (Some conflict_AB)"
    by (subst temporal_loop.simps)
       (simp add: le pos_A pos_B calculate_distance_less sec l3 power2_eq_square)
  have l1: "temporal_loop mission_A mission_B 10 (seconds 278) (seconds 269) = Inr (Some conflict_AB)"
    by (subst temporal_loop.simps)
       (simp add: le pos_A pos_B calculate_distance_less sec l2 power2_eq_square)
  have l0: "temporal_loop mission_A mission_B 10 (seconds 278) (seconds 268) = Inr (Some conflict_AB)"
    by (subst temporal_loop.simps)
       (simp add: le pos_A pos_B calculate_distance_less sec l1 power2_eq_square)
  have w: "max (seconds 273 - seconds 5) (seconds 0) = seconds 268"
    "min (seconds 273 + seconds 5) (seconds 600) = seconds 278"
    by (simp_all add: seconds_def)
  have ts: "\<not> total_seconds (seconds 5) < 0" by (simp add: total_seconds_def seconds_def)
  show ?thesis
    by (simp add: check_temporal_overlap_at_location_def candidate_A_def st w l0 ts Let_def)
qed

subsection \<open>The deconfliction system\<close>

lemma pre_interpolate_returns:
  "list_all mission_ok ms \<Longrightarrow> cache_ok cache \<Longrightarrow>
     \<exists>cache'. pre_interpolate ms cache = Some (Inr cache') \<and> cache_ok cache' \<and>
        dom cache \<subseteq> dom cache' \<and> (\<forall>m \<in> set ms. drone_id m \<in> dom cache')"
proof (induction ms arbitrary: cache)
  case Nil
  then show ?case by simp
next
  case (Cons m ms)
  from Cons.prems have ok: "mission_ok m" and rest: "list_all mission_ok ms" by simp_all
  obtain traj where t: "interpolate_trajectory m 1 = Some (Inr traj)" "times_present traj"
    using interpolate_returns [OF ok, of 1] by (auto simp: td1)
  have c: "cache_ok (cache(drone_id m \<mapsto> traj))"
    using Cons.prems(2) t(2) by (auto simp: cache_ok_def)
  from Cons.IH [OF rest c] obtain cache' where
    c': "pre_interpolate ms (cache(drone_id m \<mapsto> traj)) = Some (Inr cache')" "cache_ok cache'"
      "dom (cache(drone_id m \<mapsto> traj)) \<subseteq> dom cache'" "\<forall>m \<in> set ms. drone_id m \<in> dom cache'"
    by blast
  have "pre_interpolate (m # ms) cache = Some (Inr cache')" using t(1) c'(1) by simp
  moreover have "dom cache \<subseteq> dom cache'" "drone_id m \<in> dom cache'" using c'(3) by auto
  ultimately show ?case using c'(2,4) by auto
qed

lemma check_temporal_overlap_returns:
  assumes "mission_ok pm" "mission_ok sm" "0 < buffer" "0 \<le> window" "wp_time ca = Some tc"
  shows "\<exists>r. check_temporal_overlap_at_location pm sm ca cb buffer window = Inr r"
proof -
  from assms(1) have p: "times_present (waypoints pm)" "waypoints pm \<noteq> []"
    by (auto simp: mission_ok_def)
  from assms(2) have s: "times_present (waypoints sm)" "waypoints sm \<noteq> []"
    by (auto simp: mission_ok_def)
  have "check_temporal_overlap_at_location pm sm ca cb buffer window =
      temporal_loop pm sm buffer (window_stop pm sm tc window) (window_start pm sm tc window)"
    using assms(3-5)
    by (simp add: check_temporal_overlap_at_location_def total_seconds_def Let_def
        window_start_def window_stop_def)
  then show ?thesis
    using temporal_loop_spec [OF p s, of buffer "window_stop pm sm tc window" "window_start pm sm tc window"]
    by auto
qed

lemma refine_candidates_returns:
  assumes "mission_ok pm" "mission_ok sm" "0 < buffer"
  shows "list_all (\<lambda>pr. wp_time (fst pr) \<noteq> None) cands \<Longrightarrow>
     \<exists>det'. refine_candidates pm sm buffer cands det = Inr det'"
proof (induction cands arbitrary: det)
  case Nil
  then show ?case by simp
next
  case (Cons pr cands)
  obtain p s where pr: "pr = (p, s)" by (cases pr)
  from Cons.prems pr obtain tc where tc: "wp_time p = Some tc" by auto
  have w: "(0::int) \<le> seconds 5" by (simp add: seconds_def)
  obtain r where r: "check_temporal_overlap_at_location pm sm p s buffer (seconds 5) = Inr r"
    using check_temporal_overlap_returns [OF assms w tc] by blast
  from Cons.prems have rest: "list_all (\<lambda>pr. wp_time (fst pr) \<noteq> None) cands" by simp
  show ?case using r pr Cons.IH [OF rest] by (cases r) simp_all
qed

lemma candidates_have_times:
  assumes "0 < buffer" "times_present A" "times_present B"
  shows "\<exists>cands. check_spatial_proximity pid A sid B buffer = Inr cands \<and>
           list_all (\<lambda>pr. wp_time (fst pr) \<noteq> None) cands"
proof -
  have "check_spatial_proximity pid A sid B buffer = Inr (filter (is_candidate buffer) (List.product A B))"
    using assms scan_primary_filter [OF assms(2,3), of buffer "[]"]
    by (simp add: check_spatial_proximity_def)
  moreover have "list_all (\<lambda>pr. wp_time (fst pr) \<noteq> None) (filter (is_candidate buffer) (List.product A B))"
    using assms(2) by (auto simp: list_all_iff times_present_def)
  ultimately show ?thesis by blast
qed

lemma verify_loop_returns:
  assumes "mission_ok pm" "times_present ptraj" "0 < safety_buffer sys"
    "cache_ok (pre_interpolated_simulated_trajectories sys)"
  shows "list_all mission_ok sms \<Longrightarrow>
     \<forall>m \<in> set sms. drone_id m \<in> dom (pre_interpolated_simulated_trajectories sys) \<Longrightarrow>
     \<exists>det'. verify_loop sys pm ptraj sms det = Inr det'"
proof (induction sms arbitrary: det)
  case Nil
  then show ?case by simp
next
  case (Cons sm sms)
  from Cons.prems obtain straj where
    st: "pre_interpolated_simulated_trajectories sys (drone_id sm) = Some straj" by auto
  then have tp: "times_present straj" using assms(4) by (auto simp: cache_ok_def)
  from Cons.prems have ok: "mission_ok sm" by simp
  obtain cands where c: "check_spatial_proximity (drone_id pm) ptraj (drone_id sm) straj (safety_buffer sys) = Inr cands"
    "list_all (\<lambda>pr. wp_time (fst pr) \<noteq> None) cands"
    using candidates_have_times [OF assms(3,2) tp] by blast
  obtain det' where d: "refine_candidates pm sm (safety_buffer sys) cands det = Inr det'"
    using refine_candidates_returns [OF assms(1) ok assms(3) c(2)] by blast
  from Cons.prems have "list_all mission_ok sms"
    "\<forall>m \<in> set sms. drone_id m \<in> dom (pre_interpolated_simulated_trajectories sys)" by simp_all
  from Cons.IH [OF this] show ?case using st c(1) d by simp
qed

subsection \<open>Conflict ids\<close>

lemma Conflict_init_ids_ok: "Conflict_init loc t ids desc = Inr c \<Longrightarrow> ids_ok c"
  by (auto simp: Conflict_init_def ids_ok_def split: if_splits)

lemma temporal_loop_ids_ok:
  "temporal_loop pm sm buffer stop cur = Inr (Some c) \<Longrightarrow> ids_ok c"
proof (induction pm sm buffer stop cur rule: temporal_loop.induct)
  case (1 pm sm buffer stop cur)
  from "1.prems" show ?case
    apply (subst (asm) temporal_loop.simps)
    apply (auto split: if_splits sum.splits option.splits dest: Conflict_init_ids_ok "1.IH")
    done
qed

lemma check_temporal_overlap_ids_ok:
  "check_temporal_overlap_at_location pm sm ca cb buffer window = Inr (Some c) \<Longrightarrow> ids_ok c"
  by (auto simp: check_temporal_overlap_at_location_def Let_def split: if_splits option.splits
      dest: temporal_loop_ids_ok)

lemma refine_candidates_ids_ok:
  "refine_candidates pm sm buffer cands det = Inr det' \<Longrightarrow> list_all ids_ok det \<Longrightarrow> list_all ids_ok det'"
proof (induction cands arbitrary: det)
  case Nil
  then show ?case by simp
next
  case (Cons pr cands)
  obtain p s where pr: "pr = (p, s)" by (cases pr)
  show ?case
  proof (cases "check_temporal_overlap_at_location pm sm p s buffer (seconds 5)")
    case (Inl e)
    then show ?thesis using Cons.prems pr by simp
  next
    case (Inr r)
    show ?thesis
    proof (cases r)
      case None
      then show ?thesis using Cons Inr pr by simp
    next
      case (Some c)
      then have "ids_ok c" using Inr check_temporal_overlap_ids_ok by blast
      then have "list_all ids_ok (det @ [c])" using Cons.prems(2) by simp
      moreover have "refine_candidates pm sm buffer cands (det @ [c]) = Inr det'"
        using Cons.prems(1) Inr Some pr by simp
      ultimately show ?thesis using Cons.IH by blast
    qed
  qed
qed

lemma verify_loop_ids_ok:
  "verify_loop sys pm ptraj sms det = Inr det' \<Longrightarrow> list_all ids_ok det \<Longrightarrow> list_all ids_ok det'"
proof (induction sms arbitrary: det)
  case Nil
  then show ?case by simp
next
  case (Cons sm sms)
  from Cons.prems(1) obtain straj cands det1 where
    "refine_candidates pm sm (safety_buffer sys) cands det = Inr det1"
    "verify_loop sys pm ptraj sms det1 = Inr det'"
    by (auto split: option.splits sum.splits)
  then show ?case using Cons.IH refine_candidates_ids_ok Cons.prems(2) by blast
qed

lemma verify_mission_ids_ok:
  "verify_mission sys pm = Some (Inr r) \<Longrightarrow> list_all ids_ok (conflict_details r)"
proof -
  assume v: "verify_mission sys pm = Some (Inr r)"
  then obtain ptraj det where
    d: "verify_loop sys pm ptraj (simulated_missions sys) [] = Inr det"
    and r: "r = (if det \<noteq> [] then \<lparr>status = ''conflict detected'', conflict_details = det\<rparr>
              else \<lparr>status = ''clear'', conflict_details = []\<rparr>)"
    by (auto simp: verify_mission_def split: option.splits sum.splits if_splits)
  from verify_loop_ids_ok [OF d] have "list_all ids_ok det" by simp
  then show ?thesis by (simp add: r)
qed

lemma verify_returns:
  assumes "0 < buffer" "list_all mission_ok missions" "mission_ok primary"
  shows "\<exists>sys r. DeconflictionSystem_init missions buffer = Some (Inr sys) \<and>
           verify_mission sys primary = Some (Inr r) \<and>
           (status r = ''conflict detected'' \<longleftrightarrow> conflict_details r \<noteq> []) \<and>
           (status r = ''clear'' \<longleftrightarrow> conflict_details r = []) \<and>
           (missions = [] \<longrightarrow> status r = ''clear'' \<and> conflict_details r = [])"
proof -
  have e: "cache_ok Map.empty" by (simp add: cache_ok_def)
  obtain cache where c: "pre_interpolate missions Map.empty = Some (Inr cache)" "cache_ok cache"
    "\<forall>m \<in> set missions. drone_id m \<in> dom cache"
    using pre_interpolate_returns [OF assms(2) e] by blast
  define sys where "sys = \<lparr>simulated_missions = missions, safety_buffer = buffer,
      pre_interpolated_simulated_trajectories = cache\<rparr>"
  have init: "DeconflictionSystem_init missions buffer = Some (Inr sys)"
    using assms(1) c(1) by (simp add: DeconflictionSystem_init_def sys_def)
  obtain ptraj where p: "interpolate_trajectory primary 1 = Some (Inr ptraj)" "times_present ptraj"
    using interpolate_returns [OF assms(3), of 1] by (auto simp: td1)
  have "\<exists>det. verify_loop sys primary ptraj (simulated_missions sys) [] = Inr det"
    using verify_loop_returns [of primary ptraj sys missions "[]"] assms c(2,3) p(2)
    by (simp add: sys_def)
  then obtain det where d: "verify_loop sys primary ptraj (simulated_missions sys) [] = Inr det"
    by blast
  define r where "r = (if det \<noteq> [] then \<lparr>status = ''conflict detected'', conflict_details = det\<rparr>
      else \<lparr>status = ''clear'', conflict_details = []\<rparr>)"
  have v: "verify_mission sys primary = Some (Inr r)"
    using p(1) d by (simp add: verify_mission_def r_def)
  have "missions = [] \<longrightarrow> det = []" using d by (auto simp: sys_def)
  then have "(status r = ''conflict detected'' \<longleftrightarrow> conflict_details r \<noteq> []) \<and>
           (status r = ''clear'' \<longleftrightarrow> conflict_details r = []) \<and>
           (missions = [] \<longrightarrow> status r = ''clear'' \<and> conflict_details r = [])"
    by (simp add: r_def)
  with init v show ?thesis by blast
qed

subsection \<open>The checks over the interpreter's numbers\<close>

lemma raise_or_simps [simp]:
  "raise_or (Inl e) f = Inl e" "raise_or (Inr v) f = f v"
  by (simp_all add: raise_or_def)











lemma exact_arith_simps [simp]:
  "num_add exact_arith a b = Inr (a + b)"
  "num_sub exact_arith a b = Inr (a - b)"
  "num_mul exact_arith a b = Inr (a * b)"
  "num_div exact_arith a b = (if b = 0 then Inl ZeroDivisionError else Inr (a / b))"
  "num_square exact_arith a = Inr (a\<^sup>2)"
  "num_sqrt exact_arith a = (if a < 0 then Inl ValueError else Inr (sqrt a))"
  "num_abs exact_arith a = \<bar>a\<bar>"
  "num_less exact_arith a b = (a < b)"
  "num_le exact_arith a b = (a \<le> b)"
  "num_of_int exact_arith i = real_of_int i"
  "num_total_seconds exact_arith d = total_seconds d"
  by (simp_all add: exact_arith_def)


lemma exact_distance_less:
  "0 < b \<Longrightarrow> sqrt ((x::real)\<^sup>2 + y\<^sup>2 + z\<^sup>2) < b \<longleftrightarrow> x\<^sup>2 + y\<^sup>2 + z\<^sup>2 < b\<^sup>2"
proof -
  assume b: "0 < b"
  have "sqrt (b\<^sup>2) = b" using b by simp
  then show ?thesis using real_sqrt_less_iff [of "x\<^sup>2 + y\<^sup>2 + z\<^sup>2" "b\<^sup>2"] by simp
qed















section \<open>Properties\<close>

text \<open>
  C8. Whatever list of drone ids a Conflict is constructed from (any order, any
  duplication), the stored id list is strictly ascending in the lexicographic order, so
  sorted and free of duplicates, and it holds exactly the ids that were given. Every
  Conflict the system produces goes through this constructor: the Conflict returned by
  \<^verbatim>\<open>check_temporal_overlap_at_location\<close> and every Conflict in the list returned by
  \<^verbatim>\<open>verify_mission\<close> has a strictly ascending id list.
\<close>

theorem conflict_ids_sorted_distinct:
  "(Conflict_init loc t ids desc = Inr c \<longrightarrow>
      sorted_wrt (<) (conflicting_drone_ids c) \<and> sorted (conflicting_drone_ids c) \<and>
      distinct (conflicting_drone_ids c) \<and> set (conflicting_drone_ids c) = set ids)
   \<and> (check_temporal_overlap_at_location pm sm ca cb buffer window = Inr (Some c') \<longrightarrow> ids_ok c')
   \<and> (verify_mission sys primary = Some (Inr r) \<longrightarrow> list_all ids_ok (conflict_details r))"
proof -
  have "sorted_wrt (<) (conflicting_drone_ids c) \<and> sorted (conflicting_drone_ids c) \<and>
      distinct (conflicting_drone_ids c) \<and> set (conflicting_drone_ids c) = set ids"
    if "Conflict_init loc t ids desc = Inr c"
    using that by (auto simp: Conflict_init_def split: if_splits)
  moreover have "ids_ok c'"
    if "check_temporal_overlap_at_location pm sm ca cb buffer window = Inr (Some c')"
    using that by (rule check_temporal_overlap_ids_ok)
  moreover have "list_all ids_ok (conflict_details r)"
    if "verify_mission sys primary = Some (Inr r)"
    using that by (rule verify_mission_ids_ok)
  ultimately show ?thesis by blast
qed

theorem conflict_ids_sorted_distinct_witness:
  "Conflict_init \<lparr>wp_x = 0, wp_y = 0, wp_z = 0, wp_time = Some 0\<rparr> 0
       [''DRONE_C'', ''DRONE_A'', ''DRONE_C''] ''Test''
     = Inr \<lparr>location = \<lparr>wp_x = 0, wp_y = 0, wp_z = 0, wp_time = Some 0\<rparr>, conflict_time = 0,
            conflicting_drone_ids = [''DRONE_A'', ''DRONE_C''], description = ''Test''\<rparr>
   \<and> sorted_wrt (<) [''DRONE_A'', ''DRONE_C'']
   \<and> distinct [''DRONE_A'', ''DRONE_C'']
   \<and> check_temporal_overlap_at_location mission_A mission_B candidate_A candidate_B 10 (seconds 5)
       = Inr (Some conflict_AB)
   \<and> ids_ok conflict_AB
   \<and> (\<exists>sys r. DeconflictionSystem_init [mission_B] 10 = Some (Inr sys) \<and>
          verify_mission sys mission_A = Some (Inr r) \<and> list_all ids_ok (conflict_details r))"
proof -
  have s: "sorted_list_of_set (set [''DRONE_C'', ''DRONE_A'', ''DRONE_C''])
             = [''DRONE_A'', ''DRONE_C'']"
    by code_simp
  have e: "Conflict_init \<lparr>wp_x = 0, wp_y = 0, wp_z = 0, wp_time = Some 0\<rparr> 0
       [''DRONE_C'', ''DRONE_A'', ''DRONE_C''] ''Test''
     = Inr \<lparr>location = \<lparr>wp_x = 0, wp_y = 0, wp_z = 0, wp_time = Some 0\<rparr>, conflict_time = 0,
            conflicting_drone_ids = [''DRONE_A'', ''DRONE_C''], description = ''Test''\<rparr>"
    unfolding Conflict_init_def s by simp
  have a: "mission_ok mission_A" "list_all mission_ok [mission_B]"
    by (simp_all add: mission_ok_def mission_A_def mission_B_def times_present_def seconds_def)
  obtain sys r where v: "DeconflictionSystem_init [mission_B] 10 = Some (Inr sys)"
      "verify_mission sys mission_A = Some (Inr r)"
    using verify_returns [OF _ a(2,1), of 10] by auto
  note t = conflict_ids_sorted_distinct
    [of "\<lparr>wp_x = 0, wp_y = 0, wp_z = 0, wp_time = Some 0\<rparr>" 0
        "[''DRONE_C'', ''DRONE_A'', ''DRONE_C'']" "''Test''"
        "\<lparr>location = \<lparr>wp_x = 0, wp_y = 0, wp_z = 0, wp_time = Some 0\<rparr>, conflict_time = 0,
            conflicting_drone_ids = [''DRONE_A'', ''DRONE_C''], description = ''Test''\<rparr>"
        mission_A mission_B candidate_A candidate_B 10 "seconds 5" conflict_AB sys mission_A r]
  from t e refine_AB v show ?thesis by auto
qed

text \<open>
  C9. The mission with exactly the two waypoints (0,0) at \<open>t0\<close> and (100,0) at
  \<open>t0 + 300 s\<close>, starting at \<open>t0\<close> and ending at \<open>t0 + 300 s\<close>: the position at
  \<open>t0 + 150 s\<close> is (50, 0), at altitude 0, stamped with the query time.
\<close>

theorem position_at_midpoint_example:
  "get_position_at_time
     \<lparr>drone_id = d,
      waypoints = [\<lparr>wp_x = 0, wp_y = 0, wp_z = 0, wp_time = Some t0\<rparr>,
                   \<lparr>wp_x = 100, wp_y = 0, wp_z = 0, wp_time = Some (t0 + seconds 300)\<rparr>],
      start_time = t0, end_time = t0 + seconds 300\<rparr>
     (t0 + seconds 150)
   = Inr (Some \<lparr>wp_x = 50, wp_y = 0, wp_z = 0, wp_time = Some (t0 + seconds 150)\<rparr>)"
  by (simp add: get_position_at_time_def interpolate_between_def total_seconds_def seconds_def)







text \<open>
  C10. The back-fill of waypoint times runs exactly when some waypoint of the list has no
  time. When no time is missing the store is left as it is and the constructor accepts
  the mission with the supplied times whatever they are (only the id, the number of
  waypoints and \<open>start < end\<close> are checked). When a time is missing, every waypoint of the
  list gets a time, and the times written are those computed from the store with every
  time erased: times supplied by the caller are discarded.
\<close>

theorem backfill_frame:
  "(\<not> list_ex (\<lambda>r. wp_time (h r) = None) refs \<longrightarrow>
       assign_waypoint_times_if_needed h refs start e = h)
   \<and> (\<not> list_ex (\<lambda>r. wp_time (h r) = None) refs \<and> ident \<noteq> [] \<and> 2 \<le> length refs \<and> start < e \<longrightarrow>
       Mission_init h ident refs start e =
         Inr (h, \<lparr>drone_id = ident, waypoints = map h refs, start_time = start, end_time = e\<rparr>))
   \<and> (list_ex (\<lambda>r. wp_time (h r) = None) refs \<longrightarrow>
       (\<forall>r. assign_waypoint_times_if_needed h refs start e r =
              (if r \<in> set refs
               then assign_waypoint_times_if_needed (forget_times h) refs start e r
               else h r))
       \<and> (\<forall>r \<in> set refs. wp_time (assign_waypoint_times_if_needed h refs start e r) \<noteq> None))"
proof (intro conjI impI)
  assume "\<not> list_ex (\<lambda>r. wp_time (h r) = None) refs"
  then show "assign_waypoint_times_if_needed h refs start e = h"
    by (simp add: assign_waypoint_times_if_needed_def)
next
  assume "\<not> list_ex (\<lambda>r. wp_time (h r) = None) refs \<and> ident \<noteq> [] \<and> 2 \<le> length refs \<and> start < e"
  then show "Mission_init h ident refs start e =
         Inr (h, \<lparr>drone_id = ident, waypoints = map h refs, start_time = start, end_time = e\<rparr>)"
    by (simp add: Mission_init_def assign_waypoint_times_if_needed_def)
next
  assume missing: "list_ex (\<lambda>r. wp_time (h r) = None) refs"
  then have ne: "refs \<noteq> []" by auto
  then have fm: "list_ex (\<lambda>r. wp_time (forget_times h r) = None) refs"
    by (cases refs) (simp_all add: forget_times_def)
  have t: "total_path_distance (forget_times h) refs = total_path_distance h refs"
    by (simp add: total_path_distance_def forget_times_def)
  have c: "cum_dist (forget_times h) refs k = cum_dist h refs k" for k
    by (simp add: cum_dist_def forget_times_def)
  have b: "backfill_time (forget_times h) refs start e i = backfill_time h refs start e i" for i
    by (simp add: backfill_time_def t c)
  show "\<forall>r. assign_waypoint_times_if_needed h refs start e r =
              (if r \<in> set refs
               then assign_waypoint_times_if_needed (forget_times h) refs start e r
               else h r)"
  proof -
    have u: "(forget_times h r)\<lparr>wp_time := x\<rparr> = (h r)\<lparr>wp_time := x\<rparr>" for r x
      by (simp add: forget_times_def)
    show ?thesis
      by (simp add: assign_closed_form [OF missing] assign_closed_form [OF fm] b u)
  qed
  show "\<forall>r \<in> set refs. wp_time (assign_waypoint_times_if_needed h refs start e r) \<noteq> None"
    by (simp add: assign_closed_form [OF missing])
qed

theorem backfill_frame_witness:
  "\<not> list_ex (\<lambda>r. wp_time (supplied_store r) = None) [0, 1]
   \<and> assign_waypoint_times_if_needed supplied_store [0, 1] 0 (seconds 30) = supplied_store
   \<and> Mission_init supplied_store ''DRONE'' [0, 1] 0 (seconds 30) =
        Inr (supplied_store, \<lparr>drone_id = ''DRONE'', waypoints = map supplied_store [0, 1],
                              start_time = 0, end_time = seconds 30\<rparr>)
   \<and> list_ex (\<lambda>r. wp_time (partial_store r) = None) [0, 1, 2]
   \<and> (\<forall>r. assign_waypoint_times_if_needed partial_store [0, 1, 2] 0 (seconds 600) r =
            (if r \<in> set [0, 1, 2]
             then assign_waypoint_times_if_needed (forget_times partial_store) [0, 1, 2] 0 (seconds 600) r
             else partial_store r))
   \<and> list_all (\<lambda>r. wp_time (assign_waypoint_times_if_needed partial_store [0, 1, 2] 0
                                   (seconds 600) r) \<noteq> None) [0, 1, 2]"
proof -
  have a: "\<not> list_ex (\<lambda>r. wp_time (supplied_store r) = None) [0, 1]"
    by (simp add: supplied_store_def)
  have b: "list_ex (\<lambda>r. wp_time (partial_store r) = None) [0, 1, 2]"
    using partial_missing by simp
  have c: "''DRONE'' \<noteq> [] \<and> 2 \<le> length [0::nat, 1] \<and> (0::int) < seconds 30"
    by (simp add: seconds_def)
  from backfill_frame [of supplied_store "[0, 1]" 0 "seconds 30" "''DRONE''"]
       backfill_frame [of partial_store "[0, 1, 2]" 0 "seconds 600" "''DRONE_PARTIAL''"] a b c
  show ?thesis unfolding list_all_iff by blast
qed

text \<open>
  C7. At a timestamp shared by two consecutive waypoints the two functions disagree.
  For the mission of the repository's own zero-duration test ((0,0) and (100,0) both at
  the start, (200,0) a minute later) the sampled trajectory starts at the later waypoint
  (100,0), while \<^verbatim>\<open>get_position_at_time\<close> at the same instant returns the earlier waypoint
  (0,0). With waypoint times that step back, the branch \<^verbatim>\<open>segment_duration <= 0\<close> of
  \<^verbatim>\<open>get_position_at_time\<close> is reached and returns \<^verbatim>\<open>wp1\<close>, the earlier waypoint (10,0),
  where the sampled trajectory has the later one (10,10).
\<close>

theorem zero_duration_segment_disagreement:
  "get_position_at_time jump 0 = Inr (Some \<lparr>wp_x = 0, wp_y = 0, wp_z = 0, wp_time = Some 0\<rparr>)
   \<and> interpolate_trajectory jump 10 =
       Some (Inr [\<lparr>wp_x = 100, wp_y = 0, wp_z = 0, wp_time = Some 0\<rparr>,
                  \<lparr>wp_x = 350 / 3, wp_y = 0, wp_z = 0, wp_time = Some (seconds 10)\<rparr>,
                  \<lparr>wp_x = 400 / 3, wp_y = 0, wp_z = 0, wp_time = Some (seconds 20)\<rparr>,
                  \<lparr>wp_x = 150, wp_y = 0, wp_z = 0, wp_time = Some (seconds 30)\<rparr>,
                  \<lparr>wp_x = 500 / 3, wp_y = 0, wp_z = 0, wp_time = Some (seconds 40)\<rparr>,
                  \<lparr>wp_x = 550 / 3, wp_y = 0, wp_z = 0, wp_time = Some (seconds 50)\<rparr>,
                  \<lparr>wp_x = 200, wp_y = 0, wp_z = 0, wp_time = Some (seconds 60)\<rparr>])
   \<and> get_position_at_time backstep (seconds 5) =
       Inr (Some \<lparr>wp_x = 10, wp_y = 0, wp_z = 0, wp_time = Some (seconds 5)\<rparr>)
   \<and> interpolate_trajectory backstep 5 =
       Some (Inr [\<lparr>wp_x = 10, wp_y = 0, wp_z = 0, wp_time = Some 0\<rparr>,
                  \<lparr>wp_x = 10, wp_y = 10, wp_z = 0, wp_time = Some (seconds 5)\<rparr>,
                  \<lparr>wp_x = 20, wp_y = 10, wp_z = 0, wp_time = Some (seconds 10)\<rparr>])"
proof -
  have a: "get_position_at_time jump 0 = Inr (Some \<lparr>wp_x = 0, wp_y = 0, wp_z = 0, wp_time = Some 0\<rparr>)"
    by (simp add: get_position_at_time_def jump_def seconds_def)
  have b: "interpolate_trajectory jump 10 =
       Some (Inr [\<lparr>wp_x = 100, wp_y = 0, wp_z = 0, wp_time = Some 0\<rparr>,
                  \<lparr>wp_x = 350 / 3, wp_y = 0, wp_z = 0, wp_time = Some (seconds 10)\<rparr>,
                  \<lparr>wp_x = 400 / 3, wp_y = 0, wp_z = 0, wp_time = Some (seconds 20)\<rparr>,
                  \<lparr>wp_x = 150, wp_y = 0, wp_z = 0, wp_time = Some (seconds 30)\<rparr>,
                  \<lparr>wp_x = 500 / 3, wp_y = 0, wp_z = 0, wp_time = Some (seconds 40)\<rparr>,
                  \<lparr>wp_x = 550 / 3, wp_y = 0, wp_z = 0, wp_time = Some (seconds 50)\<rparr>,
                  \<lparr>wp_x = 200, wp_y = 0, wp_z = 0, wp_time = Some (seconds 60)\<rparr>])"
    by (simp add: interpolate_trajectory_def jump_def td10 seconds_def interpolate_loop.simps
        advance_index.simps sample_at_def needs_final_def interpolate_between_def total_seconds_def)
  have c: "get_position_at_time backstep (seconds 5) =
       Inr (Some \<lparr>wp_x = 10, wp_y = 0, wp_z = 0, wp_time = Some (seconds 5)\<rparr>)"
    by (simp add: get_position_at_time_def backstep_def seconds_def total_seconds_def)
  have d: "interpolate_trajectory backstep 5 =
       Some (Inr [\<lparr>wp_x = 10, wp_y = 0, wp_z = 0, wp_time = Some 0\<rparr>,
                  \<lparr>wp_x = 10, wp_y = 10, wp_z = 0, wp_time = Some (seconds 5)\<rparr>,
                  \<lparr>wp_x = 20, wp_y = 10, wp_z = 0, wp_time = Some (seconds 10)\<rparr>])"
    by (simp add: interpolate_trajectory_def backstep_def td5 seconds_def interpolate_loop.simps
        advance_index.simps sample_at_def needs_final_def interpolate_between_def total_seconds_def)
  from a b c d show ?thesis by blast
qed

text \<open>
  C5. A positive step below half a microsecond passes the guard
  \<^verbatim>\<open>time_step_seconds <= 0\<close>, becomes the zero \<^verbatim>\<open>timedelta\<close>, and the sampling loop never
  leaves \<open>start_time\<close>: the call does not return.
\<close>

theorem sub_microsecond_step_never_returns:
  "(0::real) < 1 / 10000000 \<and> interpolate_trajectory mission_2d (1 / 10000000) = None"
  using interpolate_diverges [OF mission_2d_ok _ td_small] by simp







end
